theory Spec2Isabelle
  imports Main "HOL-Library.Option_ord" "HOL-Library.Char_ord" "HOL-Library.List_Lexorder"
begin

section \<open>Data model\<close>

text \<open>
  The worker's \<^verbatim>\<open>interface FeedItem\<close>. An optional field is an \<open>option\<close>, with
  \<open>None\<close> for \<^verbatim>\<open>undefined\<close>. A date is what \<^verbatim>\<open>Date.parse\<close> returns, a whole number of
  milliseconds since the epoch (negative before 1970), so it is an \<open>int\<close>. The field
  \<^verbatim>\<open>id\<close> is called \<open>item_id\<close> here, since \<open>id\<close> is HOL's identity function.
\<close>

record FeedItem =
  item_id :: string
  title :: string
  link :: "string option"
  date :: "int option"
  summary :: "string option"

text \<open>The object \<^verbatim>\<open>{ newItems, latestItem? }\<close> that \<^verbatim>\<open>diffItems\<close> returns.\<close>

record DiffResult =
  newItems :: "FeedItem list"
  latestItem :: "FeedItem option"

section \<open>JavaScript primitives used by the diff engine\<close>

text \<open>
  Truthiness of an optional string and of an optional number: \<^verbatim>\<open>undefined\<close>, the empty
  string and \<^verbatim>\<open>0\<close> are falsy (a stored date is never \<^verbatim>\<open>NaN\<close>).
\<close>

fun truthy_str :: "string option \<Rightarrow> bool" where
  "truthy_str None = False"
| "truthy_str (Some s) = (s \<noteq> [])"

fun truthy_num :: "int option \<Rightarrow> bool" where
  "truthy_num None = False"
| "truthy_num (Some n) = (n \<noteq> 0)"

text \<open>
  \<^verbatim>\<open>Array.prototype.sort(cmp)\<close> is a stable sort: with a comparator that orders by a key,
  its result is the one stable arrangement, which insertion from the right computes.
  An element goes before the first element it does not compare greater than.
\<close>

fun insert_by :: "('a \<Rightarrow> 'a \<Rightarrow> int) \<Rightarrow> 'a \<Rightarrow> 'a list \<Rightarrow> 'a list" where
  "insert_by cmp x [] = [x]"
| "insert_by cmp x (y # ys) = (if cmp x y \<le> 0 then x # y # ys else y # insert_by cmp x ys)"

fun js_sort :: "('a \<Rightarrow> 'a \<Rightarrow> int) \<Rightarrow> 'a list \<Rightarrow> 'a list" where
  "js_sort cmp [] = []"
| "js_sort cmp (x # xs) = insert_by cmp x (js_sort cmp xs)"

text \<open>\<^verbatim>\<open>Array.prototype.findIndex\<close>; \<open>None\<close> stands for the result \<^verbatim>\<open>-1\<close>.\<close>

fun findIndex :: "('a \<Rightarrow> bool) \<Rightarrow> 'a list \<Rightarrow> nat option" where
  "findIndex P [] = None"
| "findIndex P (x # xs) = (if P x then Some 0 else map_option Suc (findIndex P xs))"

section \<open>The watermark diff engine\<close>

text \<open>\<^verbatim>\<open>a.date ?? 0\<close>: the sort key of an item.\<close>

definition date_or_0 :: "FeedItem \<Rightarrow> int" where
  "date_or_0 item = (case date item of None \<Rightarrow> 0 | Some d \<Rightarrow> d)"

text \<open>The comparator \<^verbatim>\<open>(a, b) => (a.date ?? 0) - (b.date ?? 0)\<close>.\<close>

definition date_cmp :: "FeedItem \<Rightarrow> FeedItem \<Rightarrow> int" where
  "date_cmp a b = date_or_0 a - date_or_0 b"

text \<open>\<^verbatim>\<open>items.some((item) => typeof item.date === "number")\<close>.\<close>

definition withDate :: "FeedItem list \<Rightarrow> bool" where
  "withDate items = list_ex (\<lambda>item. date item \<noteq> None) items"

text \<open>The ordering step: the value of the local \<^verbatim>\<open>sorted\<close>.\<close>

definition sorted_items :: "FeedItem list \<Rightarrow> FeedItem list" where
  "sorted_items items = (if withDate items then js_sort date_cmp items else items)"

text \<open>
  The id strategy: \<^verbatim>\<open>sorted.slice(index + 1)\<close> when \<^verbatim>\<open>lastId\<close> is truthy and found,
  the empty list otherwise.
\<close>

definition after_id :: "FeedItem list \<Rightarrow> string option \<Rightarrow> FeedItem list" where
  "after_id sorted' lastId =
     (case lastId of
        None \<Rightarrow> []
      | Some lid \<Rightarrow>
          if lid = [] then []
          else (case findIndex (\<lambda>item. item_id item = lid) sorted' of
                  None \<Rightarrow> []
                | Some index \<Rightarrow> drop (index + 1) sorted'))"

text \<open>The filter predicate \<^verbatim>\<open>item.date && item.date > lastDate\<close>: a date of 0 is falsy.\<close>

definition newer_than :: "int \<Rightarrow> FeedItem \<Rightarrow> bool" where
  "newer_than lastDate item =
     (case date item of None \<Rightarrow> False | Some d \<Rightarrow> d \<noteq> 0 \<and> d > lastDate)"

text \<open>The date strategy, tried when the id strategy gave nothing and \<^verbatim>\<open>lastDate\<close> is truthy.\<close>

definition by_date :: "FeedItem list \<Rightarrow> int option \<Rightarrow> FeedItem list \<Rightarrow> FeedItem list" where
  "by_date sorted' lastDate found =
     (case lastDate of
        None \<Rightarrow> found
      | Some ld \<Rightarrow> if found = [] \<and> ld \<noteq> 0 then filter (newer_than ld) sorted' else found)"

text \<open>
  The last resort: the single latest item, when nothing was found and its id is not
  \<^verbatim>\<open>lastId\<close> (\<^verbatim>\<open>latestItem.id !== lastId\<close> holds when \<^verbatim>\<open>lastId\<close> is undefined).
\<close>

definition catch_up :: "FeedItem \<Rightarrow> string option \<Rightarrow> FeedItem list \<Rightarrow> FeedItem list" where
  "catch_up latest lastId found =
     (if found = [] \<and> Some (item_id latest) \<noteq> lastId then [latest] else found)"

definition diffItems :: "FeedItem list \<Rightarrow> string option \<Rightarrow> int option \<Rightarrow> DiffResult" where
  "diffItems items lastId lastDate =
     (if items = [] then \<lparr>newItems = [], latestItem = None\<rparr>
      else
        let sorted' = sorted_items items;
            latest = last sorted'
        in if \<not> truthy_str lastId \<and> \<not> truthy_num lastDate
           then \<lparr>newItems = [], latestItem = Some latest\<rparr>
           else \<lparr>newItems = catch_up latest lastId (by_date sorted' lastDate (after_id sorted' lastId)),
                 latestItem = Some latest\<rparr>)"


subsection \<open>The same function on a store of arrays\<close>

text \<open>
  JavaScript arrays are mutable objects passed by reference, and \<^verbatim>\<open>sort\<close> works in
  place. To say what \<^verbatim>\<open>diffItems\<close> does to its argument, arrays live in a store: an
  address holds an array, and \<open>brk\<close> is the next address the allocator hands out.
\<close>

record heap =
  cells :: "nat \<Rightarrow> FeedItem list option"
  brk :: nat

text \<open>Reading the array at an address.\<close>

definition at :: "heap \<Rightarrow> nat \<Rightarrow> FeedItem list" where
  "at h a = (case cells h a of None \<Rightarrow> [] | Some xs \<Rightarrow> xs)"

text \<open>
  A new array: an array literal, the spread copy \<^verbatim>\<open>[...items]\<close>, and the results of
  \<^verbatim>\<open>slice\<close> and \<^verbatim>\<open>filter\<close> are all fresh arrays.
\<close>

definition alloc :: "FeedItem list \<Rightarrow> heap \<Rightarrow> nat \<times> heap" where
  "alloc xs h = (brk h, h\<lparr>cells := (cells h)(brk h \<mapsto> xs), brk := Suc (brk h)\<rparr>)"

text \<open>\<^verbatim>\<open>arr.sort(cmp)\<close>: overwrites the array at the address and returns the same address.\<close>

definition sort_at :: "nat \<Rightarrow> heap \<Rightarrow> heap" where
  "sort_at a h = h\<lparr>cells := (cells h)(a \<mapsto> js_sort date_cmp (at h a))\<rparr>"

text \<open>
  \<^verbatim>\<open>const sorted = withDate ? [...items].sort(...) : [...items]\<close>: the address of
  \<^verbatim>\<open>sorted\<close> and the store after it.
\<close>

definition copy_sorted :: "nat \<Rightarrow> heap \<Rightarrow> nat \<times> heap" where
  "copy_sorted items h =
     (let (s, h1) = alloc (at h items) h
      in if withDate (at h items) then (s, sort_at s h1) else (s, h1))"

text \<open>\<^verbatim>\<open>if (lastId) { ... newItems = sorted.slice(index + 1) }\<close>, on the variable \<^verbatim>\<open>newItems\<close>.\<close>

definition id_step :: "nat \<Rightarrow> string option \<Rightarrow> nat \<times> heap \<Rightarrow> nat \<times> heap" where
  "id_step s lastId nh =
     (case nh of (n, h) \<Rightarrow>
        (case lastId of
           None \<Rightarrow> (n, h)
         | Some lid \<Rightarrow>
             if lid = [] then (n, h)
             else (case findIndex (\<lambda>item. item_id item = lid) (at h s) of
                     None \<Rightarrow> (n, h)
                   | Some index \<Rightarrow> alloc (drop (index + 1) (at h s)) h)))"

text \<open>\<^verbatim>\<open>if (newItems.length === 0 && lastDate) newItems = sorted.filter(...)\<close>.\<close>

definition date_step :: "nat \<Rightarrow> int option \<Rightarrow> nat \<times> heap \<Rightarrow> nat \<times> heap" where
  "date_step s lastDate nh =
     (case nh of (n, h) \<Rightarrow>
        (case lastDate of
           None \<Rightarrow> (n, h)
         | Some ld \<Rightarrow>
             if at h n = [] \<and> ld \<noteq> 0 then alloc (filter (newer_than ld) (at h s)) h
             else (n, h)))"

text \<open>\<^verbatim>\<open>if (newItems.length === 0 && latestItem && latestItem.id !== lastId) newItems = [latestItem]\<close>.\<close>

definition catch_up_step :: "FeedItem \<Rightarrow> string option \<Rightarrow> nat \<times> heap \<Rightarrow> nat \<times> heap" where
  "catch_up_step latest lastId nh =
     (case nh of (n, h) \<Rightarrow>
        if at h n = [] \<and> Some (item_id latest) \<noteq> lastId then alloc [latest] h else (n, h))"

text \<open>The returned object holds the address of \<^verbatim>\<open>newItems\<close>.\<close>

record DiffRef =
  newItems_at :: nat
  latestItem_of :: "FeedItem option"

text \<open>
  \<^verbatim>\<open>diffItems\<close> on the store; \<open>items\<close> is the address of the argument array. The result
  is \<open>None\<close> only when that address holds no array, which a caller cannot do.
\<close>

definition diffItems_heap ::
  "heap \<Rightarrow> nat \<Rightarrow> string option \<Rightarrow> int option \<Rightarrow> (DiffRef \<times> heap) option" where
  "diffItems_heap h items lastId lastDate =
     (case cells h items of
        None \<Rightarrow> None
      | Some xs \<Rightarrow>
          if xs = [] then
            (let (n, h1) = alloc [] h
             in Some (\<lparr>newItems_at = n, latestItem_of = None\<rparr>, h1))
          else
            (let (s, h2) = copy_sorted items h;
                 latest = last (at h2 s)
             in if \<not> truthy_str lastId \<and> \<not> truthy_num lastDate then
                  (let (n, h3) = alloc [] h2
                   in Some (\<lparr>newItems_at = n, latestItem_of = Some latest\<rparr>, h3))
                else
                  (let (n, h3) =
                         catch_up_step latest lastId
                           (date_step s lastDate (id_step s lastId (alloc [] h2)))
                   in Some (\<lparr>newItems_at = n, latestItem_of = Some latest\<rparr>, h3))))"


section \<open>The subscription store\<close>

text \<open>
  The id a subscription record holds as its watermark, as \<^verbatim>\<open>JSON.parse\<close> returns it. The
  interface declares it a string. It is written from the id of a feed item, and at run
  time that can be a number, a boolean, or an object or array (see the cycle below); the
  worker only tests such an id for truth and compares it with \<^verbatim>\<open>===\<close>, so of an object
  or array nothing but its presence is kept. A number is identified by its rendering
  \<^verbatim>\<open>String(n)\<close>.
\<close>

datatype stored_id = IdStr string | IdNum string | IdBool bool | IdObj

text \<open>
  The worker's \<^verbatim>\<open>interface Subscription\<close>; its field \<^verbatim>\<open>id\<close> is \<open>sub_id\<close> here.
  \<^verbatim>\<open>errorCount\<close> is a small counter, far below the range where a double stops counting,
  so it is an \<open>int\<close>.
\<close>

record Subscription =
  sub_id :: string
  guildId :: string
  channelId :: string
  url :: string
  createdAt :: int
  lastItemId :: "stored_id option"
  lastItemDate :: "int option"
  feedTitle :: "string option"
  errorCount :: "int option"
  lastError :: "string option"

text \<open>
  What a rejected promise or a \<^verbatim>\<open>throw\<close> carries: an \<^verbatim>\<open>Error\<close> with its message, or a
  value that is not an \<^verbatim>\<open>Error\<close>. \<open>Mistyped\<close> is not a JavaScript event: it marks a run
  in which a value left its declared TypeScript type, where the typed parts of this model
  stop. (The cycle is modelled on feed items as they are at run time, and does not stop
  on one.)
\<close>

datatype thrown = Error string | NonError | Mistyped

text \<open>
  The text under a key of the KV namespace, by what \<^verbatim>\<open>get(key, "json")\<close> makes of it: the
  worker writes \<^verbatim>\<open>JSON.stringify\<close> of a subscription or of a list of ids, and
  \<open>NotJson\<close> is text that \<^verbatim>\<open>JSON.parse\<close> refuses.
\<close>

datatype stored = SubJ Subscription | IdsJ "string list" | NotJson

text \<open>
  The namespace: its entries, and the log of the \<^verbatim>\<open>put\<close> calls made so far, oldest
  first. Reads see the latest write, as within one invocation of the worker.
\<close>

record kv =
  entries :: "(string \<times> stored) list"
  puts :: "(string \<times> stored) list"

definition lookup :: "kv \<Rightarrow> string \<Rightarrow> stored option" where
  "lookup s key = map_of (entries s) key"

text \<open>\<^verbatim>\<open>FEED_KV.put(key, text)\<close>.\<close>

definition kv_put :: "kv \<Rightarrow> string \<Rightarrow> stored \<Rightarrow> kv" where
  "kv_put s key v =
     s\<lparr>entries := (key, v) # filter (\<lambda>e. fst e \<noteq> key) (entries s),
       puts := puts s @ [(key, v)]\<rparr>"

text \<open>
  \<^verbatim>\<open>FEED_KV.get(key, "json")\<close>: \<^verbatim>\<open>null\<close> for a key that is not there, and a rejection
  with the \<^verbatim>\<open>SyntaxError\<close> of \<^verbatim>\<open>JSON.parse\<close> for text that is not JSON.
\<close>

definition kv_get :: "kv \<Rightarrow> string \<Rightarrow> thrown + stored option" where
  "kv_get s key =
     (case lookup s key of
        None \<Rightarrow> Inr None
      | Some NotJson \<Rightarrow> Inl (Error ''SyntaxError'')
      | Some v \<Rightarrow> Inr (Some v))"

text \<open>\<^verbatim>\<open>get<Subscription>(key, "json")\<close> and \<^verbatim>\<open>get<string[]>(key, "json")\<close>.\<close>

definition get_subscription :: "kv \<Rightarrow> string \<Rightarrow> thrown + Subscription option" where
  "get_subscription s key =
     (case kv_get s key of
        Inl e \<Rightarrow> Inl e
      | Inr None \<Rightarrow> Inr None
      | Inr (Some (SubJ sub)) \<Rightarrow> Inr (Some sub)
      | Inr (Some _) \<Rightarrow> Inl Mistyped)"

definition get_index :: "kv \<Rightarrow> string \<Rightarrow> thrown + string list option" where
  "get_index s key =
     (case kv_get s key of
        Inl e \<Rightarrow> Inl e
      | Inr None \<Rightarrow> Inr None
      | Inr (Some (IdsJ ids)) \<Rightarrow> Inr (Some ids)
      | Inr (Some _) \<Rightarrow> Inl Mistyped)"

text \<open>\<^verbatim>\<open>key.startsWith(prefix)\<close>.\<close>

definition startsWith :: "string \<Rightarrow> string \<Rightarrow> bool" where
  "startsWith key prefix = (take (length prefix) key = prefix)"

text \<open>
  \<^verbatim>\<open>FEED_KV.list({ prefix, cursor })\<close>: the keys with the prefix in lexicographic order,
  a page of at most 1000 at a time. A cursor is the offset of the next page.
\<close>

record list_result =
  names :: "string list"
  list_complete :: bool
  cursor :: nat

definition keys_with :: "kv \<Rightarrow> string \<Rightarrow> string list" where
  "keys_with s prefix = sort (remdups (filter (\<lambda>key. startsWith key prefix) (map fst (entries s))))"

definition KV_LIST_LIMIT :: nat where
  "KV_LIST_LIMIT = 1000"

definition kv_list :: "kv \<Rightarrow> string \<Rightarrow> nat option \<Rightarrow> list_result" where
  "kv_list s prefix cur =
     (let start = (case cur of None \<Rightarrow> 0 | Some c \<Rightarrow> c);
          rest = drop start (keys_with s prefix)
      in \<lparr>names = take KV_LIST_LIMIT rest,
          list_complete = (length rest \<le> KV_LIST_LIMIT),
          cursor = start + KV_LIST_LIMIT\<rparr>)"

text \<open>The \<^verbatim>\<open>do ... while (cursor)\<close> loop of \<^verbatim>\<open>listAllKeys\<close>.\<close>

function listAllKeys_loop :: "kv \<Rightarrow> string \<Rightarrow> nat option \<Rightarrow> string list \<Rightarrow> string list" where
  "listAllKeys_loop s prefix cur keys =
     (let response = kv_list s prefix cur;
          keys' = keys @ names response
      in if list_complete response then keys'
         else listAllKeys_loop s prefix (Some (cursor response)) keys')"
  by pat_completeness auto
termination
  by (relation "measure (\<lambda>(s, prefix, cur, keys).
        length (keys_with s prefix) - (case cur of None \<Rightarrow> 0 | Some c \<Rightarrow> c))")
     (auto simp: kv_list_def KV_LIST_LIMIT_def Let_def split: option.splits)

declare listAllKeys_loop.simps [simp del]

definition listAllKeys :: "kv \<Rightarrow> string \<Rightarrow> string list" where
  "listAllKeys s prefix = listAllKeys_loop s prefix None []"

text \<open>
  \<^verbatim>\<open>Promise.all(keys.map((key) => get<Subscription>(key, "json")))\<close>: every result, or
  the rejection of a read that failed.
\<close>

fun get_all :: "kv \<Rightarrow> string list \<Rightarrow> thrown + Subscription option list" where
  "get_all s [] = Inr []"
| "get_all s (key # keys) =
     (case get_subscription s key of
        Inl e \<Rightarrow> Inl e
      | Inr r \<Rightarrow> (case get_all s keys of Inl e \<Rightarrow> Inl e | Inr rs \<Rightarrow> Inr (r # rs)))"

text \<open>\<^verbatim>\<open>subscriptions.filter((sub): sub is Subscription => Boolean(sub))\<close>.\<close>

fun non_null :: "'a option list \<Rightarrow> 'a list" where
  "non_null [] = []"
| "non_null (None # rs) = non_null rs"
| "non_null (Some r # rs) = r # non_null rs"

definition subscriptionKey :: "string \<Rightarrow> string \<Rightarrow> string" where
  "subscriptionKey guild subId = ''sub:g:'' @ guild @ '':'' @ subId"

definition guildIndexKey :: "string \<Rightarrow> string" where
  "guildIndexKey guild = ''subindex:g:'' @ guild"

text \<open>The prefix \<^verbatim>\<open>`sub:g:${guildId}:`\<close> of a guild's subscription keys.\<close>

definition guildPrefix :: "string \<Rightarrow> string" where
  "guildPrefix guild = ''sub:g:'' @ guild @ '':''"

definition listSubscriptionsByGuild :: "kv \<Rightarrow> string \<Rightarrow> thrown + Subscription list" where
  "listSubscriptionsByGuild s guild =
     (case get_all s (listAllKeys s (guildPrefix guild)) of
        Inl e \<Rightarrow> Inl e
      | Inr subscriptions \<Rightarrow> Inr (non_null subscriptions))"

text \<open>
  The listing operation. It returns the subscriptions and the namespace after the call,
  or the error it was rejected with; every write is the last thing a path does, so a
  rejected call has written nothing. \<open>from_index\<close> is the branch taken when
  \<^verbatim>\<open>index && index.length > 0\<close>, \<open>from_scan\<close> the fallback after it.
\<close>

definition from_index :: "kv \<Rightarrow> string \<Rightarrow> string list \<Rightarrow> thrown + (Subscription list \<times> kv)" where
  "from_index s guild index =
     (case get_all s (map (subscriptionKey guild) index) of
        Inl e \<Rightarrow> Inl e
      | Inr subscriptions \<Rightarrow>
          let valid = non_null subscriptions
          in Inr (valid,
                  if length valid \<noteq> length index
                  then kv_put s (guildIndexKey guild) (IdsJ (map sub_id valid))
                  else s))"

definition from_scan :: "kv \<Rightarrow> string \<Rightarrow> thrown + (Subscription list \<times> kv)" where
  "from_scan s guild =
     (case listSubscriptionsByGuild s guild of
        Inl e \<Rightarrow> Inl e
      | Inr fallback \<Rightarrow>
          Inr (fallback,
               if fallback \<noteq> []
               then kv_put s (guildIndexKey guild) (IdsJ (map sub_id fallback))
               else s))"

definition getSubscriptionsForGuild :: "kv \<Rightarrow> string \<Rightarrow> thrown + (Subscription list \<times> kv)" where
  "getSubscriptionsForGuild s guild =
     (case get_index s (guildIndexKey guild) of
        Inl e \<Rightarrow> Inl e
      | Inr None \<Rightarrow> from_scan s guild
      | Inr (Some []) \<Rightarrow> from_scan s guild
      | Inr (Some (i # ids)) \<Rightarrow> from_index s guild (i # ids))"

text \<open>\<^verbatim>\<open>(await get<string[]>(indexKey, "json")) ?? []\<close>.\<close>

definition index_or_empty :: "string list option \<Rightarrow> string list" where
  "index_or_empty index = (case index of None \<Rightarrow> [] | Some ids \<Rightarrow> ids)"

definition addToIndex :: "kv \<Rightarrow> string \<Rightarrow> string \<Rightarrow> thrown + kv" where
  "addToIndex s guild subId =
     (let indexKey = guildIndexKey guild
      in case get_index s indexKey of
           Inl e \<Rightarrow> Inl e
         | Inr r \<Rightarrow>
             let index = index_or_empty r
             in if subId \<notin> set index
                then Inr (kv_put s indexKey (IdsJ (index @ [subId])))
                else Inr s)"

definition removeFromIndex :: "kv \<Rightarrow> string \<Rightarrow> string \<Rightarrow> thrown + kv" where
  "removeFromIndex s guild subId =
     (let indexKey = guildIndexKey guild
      in case get_index s indexKey of
           Inl e \<Rightarrow> Inl e
         | Inr r \<Rightarrow>
             let index = index_or_empty r;
                 next = filter (\<lambda>i. i \<noteq> subId) index
             in if length next \<noteq> length index
                then Inr (kv_put s indexKey (IdsJ next))
                else Inr s)"

text \<open>\<^verbatim>\<open>addToIndex\<close> followed by \<^verbatim>\<open>removeFromIndex\<close> for the same id.\<close>

definition add_then_remove :: "kv \<Rightarrow> string \<Rightarrow> string \<Rightarrow> thrown + kv" where
  "add_then_remove s guild subId =
     (case addToIndex s guild subId of
        Inl e \<Rightarrow> Inl e
      | Inr s1 \<Rightarrow> removeFromIndex s1 guild subId)"

text \<open>The ids the stored index of a guild lists; none when there is no index.\<close>

definition index_ids :: "kv \<Rightarrow> string \<Rightarrow> string list" where
  "index_ids s guild =
     (case lookup s (guildIndexKey guild) of Some (IdsJ ids) \<Rightarrow> ids | _ \<Rightarrow> [])"

text \<open>An id resolves when a subscription record is stored under its key.\<close>

definition resolves :: "kv \<Rightarrow> string \<Rightarrow> string \<Rightarrow> bool" where
  "resolves s guild subId =
     (case lookup s (subscriptionKey guild subId) of Some (SubJ sub) \<Rightarrow> True | _ \<Rightarrow> False)"

section \<open>The feed parser and normalizer\<close>

text \<open>
  A value in the tree the XML parser returns: a string, a number, a boolean, an object
  with its fields in order, or an array. A number is identified by its rendering
  \<^verbatim>\<open>String(n)\<close>, which is all the worker does with one besides testing it for truth.
\<close>

datatype xval =
    XStr string
  | XNum string
  | XBool bool
  | XObj "(string \<times> xval) list"
  | XArr "xval list"

text \<open>
  A network call is the \<^verbatim>\<open>GET\<close> of a feed URL or the \<^verbatim>\<open>POST\<close> of a message to a
  channel. It is rejected with an error, or answered with a status and a body.
\<close>

datatype request = Get string | Post string string

datatype response = Rejected thrown | Response nat string

text \<open>
  What the worker calls and does not define: \<^verbatim>\<open>Date.parse\<close> (\<open>None\<close> for \<^verbatim>\<open>NaN\<close>), the
  \<^verbatim>\<open>parse\<close> method of the XML parser (\<open>Inl\<close> when it throws), and the network. The
  answer of the network to a request may differ from call to call, so it depends on how
  many calls were made before.
\<close>

record platform =
  Date_parse :: "string \<Rightarrow> int option"
  xml_parse :: "string \<Rightarrow> thrown + xval"
  net :: "nat \<Rightarrow> request \<Rightarrow> response"

text \<open>
  Reading a property, \<^verbatim>\<open>value.name\<close> or \<^verbatim>\<open>value?.name\<close> on a value that is not nullish;
  \<open>None\<close> is \<^verbatim>\<open>undefined\<close>. Strings, numbers, booleans and arrays have none of the
  properties the worker reads, but for \<^verbatim>\<open>link\<close> on a string, which is a method, and
  \<^verbatim>\<open>pickLink\<close> answers \<^verbatim>\<open>undefined\<close> for a function as it does for \<^verbatim>\<open>undefined\<close>.
\<close>

fun js_prop :: "xval \<Rightarrow> string \<Rightarrow> xval option" where
  "js_prop (XObj fs) name = map_of fs name"
| "js_prop (XStr s) name = None"
| "js_prop (XNum r) name = None"
| "js_prop (XBool b) name = None"
| "js_prop (XArr vs) name = None"

text \<open>Truthiness: the empty string, \<^verbatim>\<open>0\<close>, \<^verbatim>\<open>NaN\<close> and \<^verbatim>\<open>false\<close> are falsy.\<close>

fun truthy :: "xval \<Rightarrow> bool" where
  "truthy (XStr s) = (s \<noteq> [])"
| "truthy (XNum r) = (r \<noteq> ''0'' \<and> r \<noteq> ''NaN'')"
| "truthy (XBool b) = b"
| "truthy (XObj fs) = True"
| "truthy (XArr vs) = True"

fun truthy_opt :: "xval option \<Rightarrow> bool" where
  "truthy_opt None = False"
| "truthy_opt (Some v) = truthy v"

text \<open>\<^verbatim>\<open>a ?? b\<close>.\<close>

fun nullish_or :: "'a option \<Rightarrow> 'a option \<Rightarrow> 'a option" where
  "nullish_or (Some a) b = Some a"
| "nullish_or None b = b"

text \<open>\<^verbatim>\<open>String(value)\<close>; an array renders its elements joined by commas.\<close>

fun join_comma :: "string list \<Rightarrow> string" where
  "join_comma [] = []"
| "join_comma [s] = s"
| "join_comma (s # t # ss) = s @ '','' @ join_comma (t # ss)"

fun js_String :: "xval \<Rightarrow> string" where
  "js_String (XStr s) = s"
| "js_String (XNum r) = r"
| "js_String (XBool b) = (if b then ''true'' else ''false'')"
| "js_String (XObj fs) = ''[object Object]''"
| "js_String (XArr vs) = join_comma (map js_String vs)"

fun pickText :: "xval option \<Rightarrow> string option" where
  "pickText None = None"
| "pickText (Some (XStr s)) = Some s"
| "pickText (Some (XNum r)) = Some r"
| "pickText (Some (XObj fs)) =
     (case map_of fs ''#text'' of
        Some t \<Rightarrow> Some (js_String t)
      | None \<Rightarrow> (case map_of fs ''text'' of
                   Some t \<Rightarrow> Some (js_String t)
                 | None \<Rightarrow> None))"
| "pickText (Some (XBool b)) = None"
| "pickText (Some (XArr vs)) = None"

text \<open>\<^verbatim>\<open>value.find((link) => link?.rel === "alternate") ?? value[0]\<close>.\<close>

definition preferred :: "xval list \<Rightarrow> xval option" where
  "preferred vs =
     nullish_or (find (\<lambda>l. js_prop l ''rel'' = Some (XStr ''alternate'')) vs)
                (case vs of [] \<Rightarrow> None | v # rest \<Rightarrow> Some v)"

text \<open>
  \<^verbatim>\<open>pickLink\<close>. Its object branch returns a field as it is, whatever its type: the result
  is a value, not yet a string.
\<close>

function pickLink :: "xval option \<Rightarrow> xval option" where
  "pickLink None = None"
| "pickLink (Some (XStr s)) = Some (XStr s)"
| "pickLink (Some (XArr vs)) = pickLink (preferred vs)"
| "pickLink (Some (XObj fs)) =
     nullish_or (map_of fs ''href'')
       (nullish_or (map_of fs ''url'')
          (nullish_or (map_of fs ''@_href'') (map_of fs ''#text'')))"
| "pickLink (Some (XNum r)) = None"
| "pickLink (Some (XBool b)) = None"
  by pat_completeness auto
termination
proof (relation "measure (\<lambda>v. case v of None \<Rightarrow> 0 | Some x \<Rightarrow> size x)", goal_cases)
  case 1
  show ?case by simp
next
  case (2 vs)
  show ?case
  proof (cases "preferred vs")
    case None
    then show ?thesis by simp
  next
    case (Some l)
    have "l \<in> set vs"
    proof (cases "find (\<lambda>l. js_prop l ''rel'' = Some (XStr ''alternate'')) vs")
      case None
      with Some show ?thesis by (cases vs) (simp_all add: preferred_def)
    next
      case (Some a)
      then have "a \<in> set vs" by (auto simp: find_Some_iff)
      with Some \<open>preferred vs = Some l\<close> show ?thesis by (simp add: preferred_def)
    qed
    then have "size l \<le> size_list size vs" by (rule size_list_estimation') simp
    with Some show ?thesis by simp
  qed
qed

text \<open>
  \<^verbatim>\<open>pickLink\<close> is declared to return \<^verbatim>\<open>string | undefined\<close>, and \<^verbatim>\<open>FeedItem\<close> takes its
  result as such. A link whose target the parser did not leave a string (an attribute
  value that reads as a number, say) is where the typed model stops.
\<close>

fun as_string :: "xval option \<Rightarrow> thrown + string option" where
  "as_string None = Inr None"
| "as_string (Some (XStr s)) = Inr (Some s)"
| "as_string (Some v) = Inl Mistyped"

text \<open>\<^verbatim>\<open>parseDate\<close>: no text, an empty text or a text that is not a date give no date.\<close>

definition parseDate :: "platform \<Rightarrow> xval option \<Rightarrow> int option" where
  "parseDate P v =
     (case pickText v of
        None \<Rightarrow> None
      | Some text \<Rightarrow> if text = [] then None else Date_parse P text)"

definition normalizeRssItem :: "platform \<Rightarrow> xval \<Rightarrow> thrown + FeedItem option" where
  "normalizeRssItem P item =
     (if \<not> truthy item then Inr None
      else
        let title' = (case pickText (js_prop item ''title'') of Some t \<Rightarrow> t | None \<Rightarrow> ''(no title)'')
        in case as_string (pickLink (js_prop item ''link'')) of
             Inl e \<Rightarrow> Inl e
           | Inr link' \<Rightarrow>
               Inr (Some
                 \<lparr>item_id = (case pickText (js_prop item ''guid'') of
                               Some g \<Rightarrow> g
                             | None \<Rightarrow> (case link' of Some l \<Rightarrow> l | None \<Rightarrow> title')),
                  title = title',
                  link = link',
                  date = parseDate P
                           (nullish_or (js_prop item ''pubDate'')
                              (nullish_or (js_prop item ''date'')
                                 (nullish_or (js_prop item ''published'') (js_prop item ''updated'')))),
                  summary = pickText (js_prop item ''description'')\<rparr>))"

definition normalizeAtomEntry :: "platform \<Rightarrow> xval \<Rightarrow> thrown + FeedItem option" where
  "normalizeAtomEntry P entry =
     (if \<not> truthy entry then Inr None
      else
        let title' = (case pickText (js_prop entry ''title'') of Some t \<Rightarrow> t | None \<Rightarrow> ''(no title)'')
        in case as_string (pickLink (js_prop entry ''link'')) of
             Inl e \<Rightarrow> Inl e
           | Inr link' \<Rightarrow>
               Inr (Some
                 \<lparr>item_id = (case pickText (js_prop entry ''id'') of
                               Some g \<Rightarrow> g
                             | None \<Rightarrow> (case link' of Some l \<Rightarrow> l | None \<Rightarrow> title')),
                  title = title',
                  link = link',
                  date = parseDate P (nullish_or (js_prop entry ''updated'') (js_prop entry ''published'')),
                  summary = pickText (nullish_or (js_prop entry ''summary'') (js_prop entry ''content''))\<rparr>))"

section \<open>The reconciliation cycle\<close>

subsection \<open>Feed items at run time\<close>

text \<open>
  The interface \<^verbatim>\<open>FeedItem\<close> declares \<^verbatim>\<open>id\<close> and \<^verbatim>\<open>link\<close> strings, and the diff engine
  was modelled above on items of that type. The declaration is not checked at run time:
  \<^verbatim>\<open>pickLink\<close> returns a field of the parsed tree as it is, and the parser (with
  \<^verbatim>\<open>parseAttributeValue\<close> and \<^verbatim>\<open>parseTagValue\<close> on) leaves a number or a boolean where
  the text reads as one, and an object where an element has children. The cycle runs on
  what is there, and an error that comes of it is caught like any other. So the cycle is
  modelled on items as they are at run time: \<^verbatim>\<open>id\<close> and \<^verbatim>\<open>link\<close> are values of the tree.
\<close>

record FeedItem_rt =
  id_rt :: xval
  title_rt :: string
  link_rt :: "xval option"
  date_rt :: "int option"
  summary_rt :: "string option"

record DiffResult_rt =
  newItems_rt :: "FeedItem_rt list"
  latestItem_rt :: "FeedItem_rt option"

text \<open>An item of the declared type, as the run-time value it is.\<close>

definition at_run_time :: "FeedItem \<Rightarrow> FeedItem_rt" where
  "at_run_time item =
     \<lparr>id_rt = XStr (item_id item), title_rt = title item, link_rt = map_option XStr (link item),
      date_rt = date item, summary_rt = summary item\<rparr>"

text \<open>
  \<^verbatim>\<open>JSON.parse(JSON.stringify(id))\<close>: what a record read in a later cycle holds for an id
  written in this one. \<^verbatim>\<open>NaN\<close> and the infinities are written as \<^verbatim>\<open>null\<close>, which
  \<open>None\<close> stands for as it does for \<^verbatim>\<open>undefined\<close>: the worker treats the two alike.
\<close>

fun json_id :: "xval \<Rightarrow> stored_id option" where
  "json_id (XStr s) = Some (IdStr s)"
| "json_id (XNum r) =
     (if r = ''NaN'' \<or> r = ''Infinity'' \<or> r = ''-Infinity'' then None else Some (IdNum r))"
| "json_id (XBool b) = Some (IdBool b)"
| "json_id (XObj fs) = Some IdObj"
| "json_id (XArr vs) = Some IdObj"

text \<open>Truthiness of the stored watermark id, for \<^verbatim>\<open>!lastId\<close> and \<^verbatim>\<open>if (lastId)\<close>.\<close>

fun truthy_id :: "stored_id option \<Rightarrow> bool" where
  "truthy_id None = False"
| "truthy_id (Some (IdStr s)) = (s \<noteq> [])"
| "truthy_id (Some (IdNum r)) = (r \<noteq> ''0'' \<and> r \<noteq> ''NaN'')"
| "truthy_id (Some (IdBool b)) = b"
| "truthy_id (Some IdObj) = True"

text \<open>
  \<^verbatim>\<open>item.id === lastId\<close>: the same type and the same value. An object or array of the
  parsed tree is never identical to one read from the namespace, and an id is never
  \<^verbatim>\<open>undefined\<close> or \<^verbatim>\<open>null\<close>.
\<close>

fun same_id :: "xval \<Rightarrow> stored_id option \<Rightarrow> bool" where
  "same_id (XStr s) (Some (IdStr t)) = (s = t)"
| "same_id (XNum r) (Some (IdNum t)) = (r = t \<and> r \<noteq> ''NaN'')"
| "same_id (XBool b) (Some (IdBool c)) = (b = c)"
| "same_id v lastId = False"

text \<open>
  \<^verbatim>\<open>diffItems\<close> on items as they are at run time: the same statements, with the tests
  on the id read as JavaScript evaluates them on any value.
\<close>

definition diffItems_rt ::
  "FeedItem_rt list \<Rightarrow> stored_id option \<Rightarrow> int option \<Rightarrow> DiffResult_rt" where
  "diffItems_rt items lastId lastDate =
     (if items = [] then \<lparr>newItems_rt = [], latestItem_rt = None\<rparr>
      else
        let withDate' = list_ex (\<lambda>item. date_rt item \<noteq> None) items;
            key = (\<lambda>item. case date_rt item of None \<Rightarrow> 0 | Some d \<Rightarrow> d);
            sorted' = (if withDate' then js_sort (\<lambda>a b. key a - key b) items else items);
            latest = last sorted'
        in if \<not> truthy_id lastId \<and> \<not> truthy_num lastDate
           then \<lparr>newItems_rt = [], latestItem_rt = Some latest\<rparr>
           else
             let found1 =
                   (if truthy_id lastId
                    then (case findIndex (\<lambda>item. same_id (id_rt item) lastId) sorted' of
                            None \<Rightarrow> []
                          | Some index \<Rightarrow> drop (index + 1) sorted')
                    else []);
                 found2 =
                   (case lastDate of
                      None \<Rightarrow> found1
                    | Some ld \<Rightarrow>
                        if found1 = [] \<and> ld \<noteq> 0
                        then filter (\<lambda>item. case date_rt item of
                                              None \<Rightarrow> False
                                            | Some d \<Rightarrow> d \<noteq> 0 \<and> d > ld) sorted'
                        else found1);
                 found3 =
                   (if found2 = [] \<and> \<not> same_id (id_rt latest) lastId then [latest] else found2)
             in \<lparr>newItems_rt = found3, latestItem_rt = Some latest\<rparr>)"

text \<open>
  \<^verbatim>\<open>normalizeRssItem\<close> and \<^verbatim>\<open>normalizeAtomEntry\<close> at run time; \<open>None\<close> is \<^verbatim>\<open>null\<close>. The
  link is the value \<^verbatim>\<open>pickLink\<close> returns, and \<^verbatim>\<open>pickText(...) ?? link ?? title\<close> makes
  it the id when there is no guid.
\<close>

definition normalizeRssItem_rt :: "platform \<Rightarrow> xval \<Rightarrow> FeedItem_rt option" where
  "normalizeRssItem_rt P item =
     (if \<not> truthy item then None
      else
        let title' = (case pickText (js_prop item ''title'') of Some t \<Rightarrow> t | None \<Rightarrow> ''(no title)'');
            link' = pickLink (js_prop item ''link'')
        in Some
             \<lparr>id_rt = (case pickText (js_prop item ''guid'') of
                          Some g \<Rightarrow> XStr g
                        | None \<Rightarrow> (case link' of Some l \<Rightarrow> l | None \<Rightarrow> XStr title')),
              title_rt = title',
              link_rt = link',
              date_rt = parseDate P
                          (nullish_or (js_prop item ''pubDate'')
                             (nullish_or (js_prop item ''date'')
                                (nullish_or (js_prop item ''published'') (js_prop item ''updated'')))),
              summary_rt = pickText (js_prop item ''description'')\<rparr>)"

definition normalizeAtomEntry_rt :: "platform \<Rightarrow> xval \<Rightarrow> FeedItem_rt option" where
  "normalizeAtomEntry_rt P entry =
     (if \<not> truthy entry then None
      else
        let title' = (case pickText (js_prop entry ''title'') of Some t \<Rightarrow> t | None \<Rightarrow> ''(no title)'');
            link' = pickLink (js_prop entry ''link'')
        in Some
             \<lparr>id_rt = (case pickText (js_prop entry ''id'') of
                          Some g \<Rightarrow> XStr g
                        | None \<Rightarrow> (case link' of Some l \<Rightarrow> l | None \<Rightarrow> XStr title')),
              title_rt = title',
              link_rt = link',
              date_rt = parseDate P (nullish_or (js_prop entry ''updated'') (js_prop entry ''published'')),
              summary_rt = pickText (nullish_or (js_prop entry ''summary'') (js_prop entry ''content''))\<rparr>)"

text \<open>\<^verbatim>\<open>ensureArray\<close>.\<close>

fun ensureArray :: "xval option \<Rightarrow> xval list" where
  "ensureArray None = []"
| "ensureArray (Some (XArr vs)) = vs"
| "ensureArray (Some v) = (if \<not> truthy v then [] else [v])"

text \<open>\<^verbatim>\<open>values.map(normalize).filter(Boolean)\<close>.\<close>

definition normalize_all :: "(xval \<Rightarrow> FeedItem_rt option) \<Rightarrow> xval list \<Rightarrow> FeedItem_rt list" where
  "normalize_all f vs = non_null (map f vs)"

datatype feed_format = Rss | Atom | Rdf | Unknown

text \<open>
  The worker's \<^verbatim>\<open>interface ParsedFeed\<close>; its fields \<^verbatim>\<open>items\<close> and \<^verbatim>\<open>title\<close> are
  \<open>feed_items\<close> and \<open>feed_title\<close> here.
\<close>

record ParsedFeed =
  feed_items :: "FeedItem_rt list"
  format :: feed_format
  feed_title :: "string option"

text \<open>\<^verbatim>\<open>parseFeed\<close>; it throws what the XML parser throws.\<close>

definition parseFeed :: "platform \<Rightarrow> string \<Rightarrow> thrown + ParsedFeed" where
  "parseFeed P xml =
     (case xml_parse P xml of
        Inl e \<Rightarrow> Inl e
      | Inr parsed \<Rightarrow>
          let channel = (case js_prop parsed ''rss'' of None \<Rightarrow> None | Some rss \<Rightarrow> js_prop rss ''channel'');
              feed = js_prop parsed ''feed'';
              rdf = js_prop parsed ''rdf:RDF''
          in if truthy_opt channel then
               Inr \<lparr>feed_items =
                      normalize_all (normalizeRssItem_rt P)
                        (ensureArray (case channel of None \<Rightarrow> None | Some c \<Rightarrow> js_prop c ''item'')),
                    format = Rss,
                    feed_title = pickText (case channel of None \<Rightarrow> None | Some c \<Rightarrow> js_prop c ''title'')\<rparr>
             else if truthy_opt feed then
               Inr \<lparr>feed_items =
                      normalize_all (normalizeAtomEntry_rt P)
                        (ensureArray (case feed of None \<Rightarrow> None | Some f \<Rightarrow> js_prop f ''entry'')),
                    format = Atom,
                    feed_title = pickText (case feed of None \<Rightarrow> None | Some f \<Rightarrow> js_prop f ''title'')\<rparr>
             else if truthy_opt rdf then
               Inr \<lparr>feed_items =
                      normalize_all (normalizeRssItem_rt P)
                        (ensureArray (case rdf of None \<Rightarrow> None | Some r \<Rightarrow> js_prop r ''item'')),
                    format = Rdf,
                    feed_title = pickText (case rdf of None \<Rightarrow> None | Some r \<Rightarrow> js_prop r ''title'')\<rparr>
             else Inr \<lparr>feed_items = [], format = Unknown, feed_title = None\<rparr>)"

subsection \<open>One subscription\<close>

text \<open>
  What a run changes outside the worker's memory: the namespace, and the number of
  network calls made so far.
\<close>

record world =
  store :: kv
  calls :: nat

text \<open>\<^verbatim>\<open>await fetch(...)\<close>: the answer to the next network call.\<close>

definition fetch :: "platform \<Rightarrow> world \<Rightarrow> request \<Rightarrow> response \<times> world" where
  "fetch P w req = (net P (calls w) req, w\<lparr>calls := Suc (calls w)\<rparr>)"

text \<open>\<^verbatim>\<open>response.ok\<close>: the status is in the range 200 to 299.\<close>

definition ok :: "nat \<Rightarrow> bool" where
  "ok status = (200 \<le> status \<and> status \<le> 299)"

text \<open>A status code in a template literal: its decimal digits.\<close>

definition digit :: "nat \<Rightarrow> char" where
  "digit d = ''0123456789'' ! d"

fun dec :: "nat \<Rightarrow> string" where
  "dec n = (if n < 10 then [digit n] else dec (n div 10) @ [digit (n mod 10)])"

declare dec.simps [simp del]

text \<open>
  White space, for \<^verbatim>\<open>\s\<close> and \<^verbatim>\<open>trim\<close>: tab, line feed, vertical tab, form feed,
  carriage return, space and no-break space. (A \<open>char\<close> is one code unit below 256; the
  white space of JavaScript beyond that range is not in the model.)
\<close>

definition is_space :: "char \<Rightarrow> bool" where
  "is_space c = (of_char c \<in> {9, 10, 11, 12, 13, 32, 160 :: nat})"

text \<open>\<^verbatim>\<open>value.replace(/\s+/g, " ")\<close>.\<close>

function collapse_ws :: "string \<Rightarrow> string" where
  "collapse_ws [] = []"
| "collapse_ws (c # cs) =
     (if is_space c then CHR '' '' # collapse_ws (dropWhile is_space cs)
      else c # collapse_ws cs)"
  by pat_completeness auto
termination
  by (relation "measure length") (auto simp: length_dropWhile_le less_Suc_eq_le)

text \<open>\<^verbatim>\<open>value.trim()\<close>.\<close>

definition js_trim :: "string \<Rightarrow> string" where
  "js_trim s = rev (dropWhile is_space (rev (dropWhile is_space s)))"

definition normalizeFeedTitle :: "string option \<Rightarrow> string option" where
  "normalizeFeedTitle v =
     (case v of
        None \<Rightarrow> None
      | Some t \<Rightarrow>
          if t = [] then None
          else
            let trimmed = js_trim (collapse_ws t)
            in if trimmed = [] then None
               else Some (if length trimmed > 200 then take 197 trimmed @ ''...'' else trimmed))"

text \<open>
  \<^verbatim>\<open>formatDiscordMessage\<close>. A link that is truthy and not a string has no method
  \<^verbatim>\<open>trim\<close>: the call \<^verbatim>\<open>item.link.trim()\<close> throws a \<^verbatim>\<open>TypeError\<close>, which is an \<^verbatim>\<open>Error\<close>.
\<close>

definition formatDiscordMessage :: "FeedItem_rt \<Rightarrow> thrown + string" where
  "formatDiscordMessage item =
     (let title' = (if title_rt item \<noteq> [] then js_trim (title_rt item) else ''(no title)'')
      in case (case link_rt item of
                 None \<Rightarrow> Inr []
               | Some l \<Rightarrow>
                   if \<not> truthy l then Inr []
                   else (case l of
                           XStr s \<Rightarrow> Inr (js_trim s)
                         | _ \<Rightarrow> Inl (Error ''item.link.trim is not a function''))) of
           Inl e \<Rightarrow> Inl e
         | Inr link' \<Rightarrow>
             let base = (if link' \<noteq> [] then title' @ [CHR 0x0A] @ link' else title')
             in Inr (if length base > 1900 then take 1897 base @ ''...'' else base))"

text \<open>
  \<^verbatim>\<open>sendDiscordMessage\<close>: the error it throws, if any, and the world after the call.
\<close>

definition sendDiscordMessage :: "platform \<Rightarrow> world \<Rightarrow> string \<Rightarrow> string \<Rightarrow> thrown option \<times> world" where
  "sendDiscordMessage P w channel content =
     (case fetch P w (Post channel content) of
        (Rejected e, w1) \<Rightarrow> (Some e, w1)
      | (Response status text, w1) \<Rightarrow>
          if \<not> ok status
          then (Some (Error (''Discord post failed ('' @ dec status @ ''): '' @ text)), w1)
          else (None, w1))"

text \<open>
  \<^verbatim>\<open>for (const item of newItems) { ... await sendDiscordMessage(...) }\<close>: one message at
  a time, and the first throw, of the formatting or of the send, ends the loop.
\<close>

fun send_all :: "platform \<Rightarrow> world \<Rightarrow> string \<Rightarrow> FeedItem_rt list \<Rightarrow> thrown option \<times> world" where
  "send_all P w channel [] = (None, w)"
| "send_all P w channel (item # rest) =
     (case formatDiscordMessage item of
        Inl e \<Rightarrow> (Some e, w)
      | Inr content \<Rightarrow>
          (case sendDiscordMessage P w channel content of
             (Some e, w1) \<Rightarrow> (Some e, w1)
           | (None, w1) \<Rightarrow> send_all P w1 channel rest))"

text \<open>
  \<^verbatim>\<open>FEED_KV.put(subscriptionKey(subscription.guildId, subscription.id),
  JSON.stringify(subscription))\<close>. A write to the namespace is taken to succeed.
\<close>

definition put_subscription :: "world \<Rightarrow> Subscription \<Rightarrow> world" where
  "put_subscription w sub =
     w\<lparr>store := kv_put (store w) (subscriptionKey (guildId sub) (sub_id sub)) (SubJ sub)\<rparr>"

text \<open>
  \<^verbatim>\<open>processSubscription\<close>. The subscription is an object the function changes in place,
  and the caller reads it again after a throw: the result is the error thrown, if any, the
  subscription as the call left it, and the world after the call. A normalized title is
  never the empty string, so it is truthy exactly when it is there. Where the function
  assigns \<^verbatim>\<open>lastItemId\<close> it writes the record and returns, so the field holds the id as
  the record will give it back.
\<close>

definition processSubscription ::
  "platform \<Rightarrow> world \<Rightarrow> Subscription \<Rightarrow> thrown option \<times> Subscription \<times> world" where
  "processSubscription P w sub =
     (case fetch P w (Get (url sub)) of
        (Rejected e, w1) \<Rightarrow> (Some e, sub, w1)
      | (Response status xmlText, w1) \<Rightarrow>
          if \<not> ok status
          then (Some (Error (''Feed fetch failed ('' @ dec status @ '')'')), sub, w1)
          else
            (case parseFeed P xmlText of
               Inl e \<Rightarrow> (Some e, sub, w1)
             | Inr feed \<Rightarrow>
                 if format feed = Unknown
                 then (Some (Error ''Unsupported feed format''), sub, w1)
                 else
                   let normalizedTitle = normalizeFeedTitle (feed_title feed);
                       titleChanged = (normalizedTitle \<noteq> None \<and> normalizedTitle \<noteq> feedTitle sub);
                       sub1 = (if titleChanged then sub\<lparr>feedTitle := normalizedTitle\<rparr> else sub)
                   in if feed_items feed = []
                      then (None, sub1, if titleChanged then put_subscription w1 sub1 else w1)
                      else
                        let d = diffItems_rt (feed_items feed) (lastItemId sub1) (lastItemDate sub1)
                        in if newItems_rt d = [] then
                             (let sub2 =
                                    (case latestItem_rt d of
                                       None \<Rightarrow> sub1
                                     | Some latest \<Rightarrow>
                                         if \<not> same_id (id_rt latest) (lastItemId sub1)
                                         then sub1\<lparr>lastItemId := json_id (id_rt latest),
                                                   lastItemDate := date_rt latest\<rparr>
                                         else sub1)
                              in (None, sub2,
                                  if latestItem_rt d \<noteq> None \<or> titleChanged
                                  then put_subscription w1 sub2 else w1))
                           else
                             (case send_all P w1 (channelId sub1) (newItems_rt d) of
                                (Some e, w2) \<Rightarrow> (Some e, sub1, w2)
                              | (None, w2) \<Rightarrow>
                                  let lastPosted = last (newItems_rt d);
                                      sub3 = sub1\<lparr>lastItemId := json_id (id_rt lastPosted),
                                                  lastItemDate := date_rt lastPosted,
                                                  errorCount := Some 0,
                                                  lastError := None\<rparr>
                                  in (None, sub3, put_subscription w2 sub3))))"

subsection \<open>The cycle\<close>

text \<open>\<^verbatim>\<open>error instanceof Error ? error.message : "unknown error"\<close>.\<close>

fun message :: "thrown \<Rightarrow> string" where
  "message (Error m) = m"
| "message NonError = ''unknown error''"
| "message Mistyped = ''unknown error''"

text \<open>The \<^verbatim>\<open>catch\<close> block of the cycle, on the subscription as the failed call left it.\<close>

definition on_error :: "world \<Rightarrow> Subscription \<Rightarrow> thrown \<Rightarrow> world" where
  "on_error w sub e =
     put_subscription w
       (sub\<lparr>errorCount := Some ((case errorCount sub of None \<Rightarrow> 0 | Some n \<Rightarrow> n) + 1),
            lastError := Some (message e)\<rparr>)"

text \<open>
  \<^verbatim>\<open>for (const subscription of active) { try { ... } catch (error) { ... } }\<close>: whatever
  the processing of a subscription throws is caught, and the loop goes on.
\<close>

fun check_loop :: "platform \<Rightarrow> world \<Rightarrow> Subscription list \<Rightarrow> world" where
  "check_loop P w [] = w"
| "check_loop P w (sub # rest) =
     (case processSubscription P w sub of
        (None, sub', w1) \<Rightarrow> check_loop P w1 rest
      | (Some e, sub', w1) \<Rightarrow> check_loop P (on_error w1 sub' e) rest)"

text \<open>
  \<^verbatim>\<open>runFeedChecks\<close>. It rejects only if a read of the namespace does, before the loop
  starts (\<open>get_all\<close> also ends with \<open>Mistyped\<close> on a key that holds a list of ids).
\<close>

definition runFeedChecks :: "platform \<Rightarrow> world \<Rightarrow> thrown + world" where
  "runFeedChecks P w =
     (let keys = listAllKeys (store w) ''sub:g:''
      in if keys = [] then Inr w
         else
           (case get_all (store w) keys of
              Inl e \<Rightarrow> Inl e
            | Inr subscriptions \<Rightarrow> Inr (check_loop P w (non_null subscriptions))))"

section \<open>What the specification says, and the inputs used as examples\<close>

text \<open>
  The items strictly after the first item with a given id, as the specification words the
  id strategy.
\<close>

fun strictly_after :: "string \<Rightarrow> FeedItem list \<Rightarrow> FeedItem list" where
  "strictly_after lid [] = []"
| "strictly_after lid (x # xs) = (if item_id x = lid then xs else strictly_after lid xs)"

text \<open>An item whose date is strictly greater than a given date, as the specification words it.\<close>

definition strictly_newer :: "int \<Rightarrow> FeedItem \<Rightarrow> bool" where
  "strictly_newer lastDate item = (case date item of None \<Rightarrow> False | Some d \<Rightarrow> d > lastDate)"

text \<open>
  The ordering step as the specification words it: a stable ascending sort by date in
  which an item without a date is below every dated item (on \<open>int option\<close>, \<open>None\<close> is the
  least element), and the source order when no item has a date.
\<close>

definition spec_ordering :: "FeedItem list \<Rightarrow> FeedItem list" where
  "spec_ordering items = (if withDate items then sort_key date items else items)"

text \<open>A store \<open>h'\<close> keeps a store \<open>h\<close>: every array allocated in \<open>h\<close> is the same in \<open>h'\<close>.\<close>

definition keeps :: "heap \<Rightarrow> heap \<Rightarrow> bool" where
  "keeps h h' = (brk h \<le> brk h' \<and> (\<forall>b<brk h. cells h' b = cells h b))"

text \<open>The subscription record under a key, if there is one.\<close>

definition sub_at :: "kv \<Rightarrow> string \<Rightarrow> Subscription option" where
  "sub_at s key = (case lookup s key of Some (SubJ sub) \<Rightarrow> Some sub | _ \<Rightarrow> None)"

text \<open>The subscription records a guild has in the namespace, in the order of their keys.\<close>

definition tenant_records :: "kv \<Rightarrow> string \<Rightarrow> Subscription list" where
  "tenant_records s guild = non_null (map (sub_at s) (keys_with s (guildPrefix guild)))"

text \<open>The index of a guild can be read: it is missing, or it is a list of ids.\<close>

definition readable_index :: "kv \<Rightarrow> string \<Rightarrow> bool" where
  "readable_index s guild =
     (case lookup s (guildIndexKey guild) of
        None \<Rightarrow> True
      | Some (IdsJ ids) \<Rightarrow> True
      | _ \<Rightarrow> False)"

text \<open>Example items: two dated ones, one without a date, one dated before the epoch.\<close>

definition itemA :: FeedItem where
  "itemA = \<lparr>item_id = ''a'', title = ''day 1'', link = None, date = Some 1, summary = None\<rparr>"

definition itemB :: FeedItem where
  "itemB = \<lparr>item_id = ''b'', title = ''day 5'', link = None, date = Some 5, summary = None\<rparr>"

definition itemU :: FeedItem where
  "itemU = \<lparr>item_id = ''u'', title = ''undated'', link = None, date = None, summary = None\<rparr>"

definition itemOld :: FeedItem where
  "itemOld = \<lparr>item_id = ''o'', title = ''1969'', link = None, date = Some (- 1), summary = None\<rparr>"

text \<open>An example store of arrays: one array, at address 0.\<close>

definition heap0 :: heap where
  "heap0 = \<lparr>cells = Map.empty(0 \<mapsto> [itemB, itemA]), brk = 1\<rparr>"

text \<open>
  An example subscription, and three namespaces that hold it: with an index that lists it,
  with no index, and with an index that is not JSON.
\<close>

definition sub1 :: Subscription where
  "sub1 = \<lparr>sub_id = ''s1'', guildId = ''g1'', channelId = ''c1'', url = ''http://a/feed'',
            createdAt = 0, lastItemId = Some (IdStr ''a''), lastItemDate = Some 1, feedTitle = None,
            errorCount = Some 0, lastError = None\<rparr>"

definition kv_indexed :: kv where
  "kv_indexed = \<lparr>entries = [(''subindex:g:g1'', IdsJ [''s1'']), (''sub:g:g1:s1'', SubJ sub1)],
                  puts = []\<rparr>"

definition kv_no_index :: kv where
  "kv_no_index = \<lparr>entries = [(''sub:g:g1:s1'', SubJ sub1)], puts = []\<rparr>"

definition kv_bad_index :: kv where
  "kv_bad_index = \<lparr>entries = [(''subindex:g:g1'', NotJson), (''sub:g:g1:s1'', SubJ sub1)],
                    puts = []\<rparr>"

text \<open>
  The first value of a list of optional strings that is there (an empty string is there),
  and the first that is there and not empty, which is how the specification words the
  precedence of the id.
\<close>

fun first_present :: "string option list \<Rightarrow> string option" where
  "first_present [] = None"
| "first_present (None # vs) = first_present vs"
| "first_present (Some v # vs) = Some v"

fun first_non_empty :: "string option list \<Rightarrow> string option" where
  "first_non_empty [] = None"
| "first_non_empty (None # vs) = first_non_empty vs"
| "first_non_empty (Some v # vs) = (if v = [] then first_non_empty vs else Some v)"

text \<open>
  An example platform: no text is a date, no text is XML, and every request is answered
  with status 404.
\<close>

definition no_date :: "string \<Rightarrow> int option" where
  "no_date text = None"

definition not_xml :: "string \<Rightarrow> thrown + xval" where
  "not_xml text = Inl (Error ''not XML'')"

definition not_found :: "nat \<Rightarrow> request \<Rightarrow> response" where
  "not_found n req = Response 404 ''''"

definition platform0 :: platform where
  "platform0 = \<lparr>Date_parse = no_date, xml_parse = not_xml, net = not_found\<rparr>"

text \<open>
  Example elements: an RSS item with a guid and one whose \<^verbatim>\<open><guid>\<close> element is empty,
  which the parser renders as the empty string.
\<close>

definition rss_item :: xval where
  "rss_item = XObj [(''title'', XStr ''T''), (''link'', XStr ''http://a/1''),
                    (''guid'', XStr ''tag:1'')]"

definition rss_item_empty_guid :: xval where
  "rss_item_empty_guid = XObj [(''title'', XStr ''T''), (''link'', XStr ''http://a/1''),
                               (''guid'', XStr '''')]"

text \<open>An example world, and a second subscription of the same guild.\<close>

definition world0 :: world where
  "world0 = \<lparr>store = kv_indexed, calls = 0\<rparr>"

definition sub2 :: Subscription where
  "sub2 = \<lparr>sub_id = ''s2'', guildId = ''g1'', channelId = ''c2'', url = ''http://b/feed'',
            createdAt = 1, lastItemId = None, lastItemDate = None, feedTitle = None,
            errorCount = None, lastError = None\<rparr>"

text \<open>An Atom entry with no id and two links, the second of them the alternate one.\<close>

definition atom_entry :: xval where
  "atom_entry =
     XObj [(''title'', XStr ''E''),
           (''link'', XArr [XObj [(''rel'', XStr ''self''), (''href'', XStr ''http://a/self'')],
                            XObj [(''rel'', XStr ''alternate''), (''href'', XStr ''http://a/e1'')]])]"

text \<open>
  A second example platform: the feed is fetched and parses to an RSS channel of two dated
  items, newest first, and the notification sink answers every post with status 500.
\<close>

definition two_dates :: "string \<Rightarrow> int option" where
  "two_dates text =
     (if text = ''1970-01-01T00:00:00.001Z'' then Some 1
      else if text = ''1970-01-01T00:00:00.005Z'' then Some 5
      else None)"

definition rss_tree :: xval where
  "rss_tree =
     XObj [(''rss'', XObj [(''channel'', XObj
       [(''title'', XStr ''  My   Feed ''),
        (''item'', XArr
           [XObj [(''title'', XStr ''two''), (''guid'', XStr ''b''),
                  (''link'', XStr ''http://a/2''),
                  (''pubDate'', XStr ''1970-01-01T00:00:00.005Z'')],
            XObj [(''title'', XStr ''one''), (''guid'', XStr ''a''),
                  (''link'', XStr ''http://a/1''),
                  (''pubDate'', XStr ''1970-01-01T00:00:00.001Z'')]])])])]"

definition parsed_rss :: "string \<Rightarrow> thrown + xval" where
  "parsed_rss text = Inr rss_tree"

fun sink_down :: "nat \<Rightarrow> request \<Rightarrow> response" where
  "sink_down n (Get u) = Response 200 ''<rss/>''"
| "sink_down n (Post channel content) = Response 500 ''down''"

definition platform1 :: platform where
  "platform1 = \<lparr>Date_parse = two_dates, xml_parse = parsed_rss, net = sink_down\<rparr>"

text \<open>A namespace that holds the two subscriptions and no index, and a world on it.\<close>

definition kv_two :: kv where
  "kv_two = \<lparr>entries = [(''sub:g:g1:s1'', SubJ sub1), (''sub:g:g1:s2'', SubJ sub2)], puts = []\<rparr>"

definition world1 :: world where
  "world1 = \<lparr>store = kv_two, calls = 0\<rparr>"

text \<open>
  A third example platform: the feed parses to an Atom feed of two undated entries, oldest
  first, whose links have targets that read as numbers, so that the parser leaves them
  numbers; the notification sink accepts every post.
\<close>

definition atom_tree :: xval where
  "atom_tree =
     XObj [(''feed'', XObj
       [(''title'', XStr ''Numbers''),
        (''entry'', XArr
           [XObj [(''title'', XStr ''one''), (''id'', XStr ''a''),
                  (''link'', XObj [(''href'', XNum ''1'')])],
            XObj [(''title'', XStr ''two''), (''id'', XStr ''b''),
                  (''link'', XObj [(''href'', XNum ''2'')])]])])]"

definition parsed_atom :: "string \<Rightarrow> thrown + xval" where
  "parsed_atom text = Inr atom_tree"

fun sink_up :: "nat \<Rightarrow> request \<Rightarrow> response" where
  "sink_up n (Get u) = Response 200 ''<feed/>''"
| "sink_up n (Post channel content) = Response 204 []"

definition platform2 :: platform where
  "platform2 = \<lparr>Date_parse = no_date, xml_parse = parsed_atom, net = sink_up\<rparr>"

section \<open>Properties of the diff engine\<close>

subsection \<open>The ordering step\<close>

lemma insert_by_insort: "insert_by date_cmp x ys = insort_key date_or_0 x ys"
  by (induction ys) (auto simp: date_cmp_def)

lemma js_sort_sort_key: "js_sort date_cmp xs = sort_key date_or_0 xs"
  by (induction xs) (auto simp: insert_by_insort)

lemma insort_key_cong_order:
  assumes "\<forall>y\<in>set ys. (f x \<le> f y) = (g x \<le> g y)"
  shows "insort_key f x ys = insort_key g x ys"
  using assms by (induction ys) auto

lemma sort_key_cong_order:
  assumes "\<forall>x\<in>set xs. \<forall>y\<in>set xs. (f x \<le> f y) = (g x \<le> g y)"
  shows "sort_key f xs = sort_key g xs"
  using assms
proof (induction xs)
  case Nil
  then show ?case by simp
next
  case (Cons a xs)
  then have "sort_key f xs = sort_key g xs" by simp
  moreover have "insort_key f a (sort_key g xs) = insort_key g a (sort_key g xs)"
    using Cons.prems by (intro insort_key_cong_order) simp
  ultimately show ?case by simp
qed

lemma positive_dates_order:
  assumes "\<forall>item\<in>set items. \<forall>d. date item = Some d \<longrightarrow> 0 < d"
  shows "sort_key date_or_0 items = sort_key date items"
proof (rule sort_key_cong_order, intro ballI)
  fix x y assume "x \<in> set items" "y \<in> set items"
  with assms show "(date_or_0 x \<le> date_or_0 y) = (date x \<le> date y)"
    by (cases "date x"; cases "date y") (auto simp: date_or_0_def less_imp_le)
qed

lemma set_sorted_items: "set (sorted_items items) = set items"
  by (simp add: sorted_items_def js_sort_sort_key)

lemma sorted_items_Nil: "(sorted_items items = []) = (items = [])"
  by (metis set_sorted_items set_empty)

lemma sorted_sorted_items: "sorted (map date_or_0 (sorted_items items))"
proof (cases "withDate items")
  case True
  then show ?thesis by (simp add: sorted_items_def js_sort_sort_key)
next
  case False
  then have "\<forall>item\<in>set items. date_or_0 item = 0"
    by (auto simp: withDate_def list_ex_iff date_or_0_def)
  then have "map date_or_0 items = replicate (length items) 0"
    by (induction items) auto
  with False show ?thesis by (simp add: sorted_items_def)
qed

text \<open>
  C4, as the code has it. When some item has a date, the ordering step is the stable
  ascending sort by the key \<^verbatim>\<open>date ?? 0\<close>: the result is sorted by that key, and items
  with the same key keep their source order. An item without a date counts as dated 0, so
  it is below every item dated after the epoch, and when every date is positive the result
  is the stable sort in which undated items are lowest. When no item has a date the source
  order is kept.
\<close>

theorem sorted_items_stable_by_date_or_0:
  "(withDate items \<longrightarrow>
      sorted_items items = sort_key date_or_0 items
      \<and> sorted (map date_or_0 (sorted_items items))
      \<and> (\<forall>k. filter (\<lambda>item. date_or_0 item = k) (sorted_items items)
              = filter (\<lambda>item. date_or_0 item = k) items))
   \<and> (withDate items \<and> (\<forall>item\<in>set items. \<forall>d. date item = Some d \<longrightarrow> 0 < d) \<longrightarrow>
        sorted_items items = spec_ordering items)
   \<and> (\<not> withDate items \<longrightarrow> sorted_items items = items)"
proof (intro conjI impI)
  assume "withDate items"
  then show "sorted_items items = sort_key date_or_0 items"
    by (simp add: sorted_items_def js_sort_sort_key)
next
  show "sorted (map date_or_0 (sorted_items items))" by (rule sorted_sorted_items)
next
  assume "withDate items"
  then show "\<forall>k. filter (\<lambda>item. date_or_0 item = k) (sorted_items items)
              = filter (\<lambda>item. date_or_0 item = k) items"
    by (simp add: sorted_items_def js_sort_sort_key sort_key_stable)
next
  assume "withDate items \<and> (\<forall>item\<in>set items. \<forall>d. date item = Some d \<longrightarrow> 0 < d)"
  then show "sorted_items items = spec_ordering items"
    by (simp add: sorted_items_def spec_ordering_def js_sort_sort_key positive_dates_order)
next
  assume "\<not> withDate items"
  then show "sorted_items items = items" by (simp add: sorted_items_def)
qed

theorem sorted_items_stable_by_date_or_0_witness:
  "withDate [itemB, itemU, itemA]
   \<and> sorted_items [itemB, itemU, itemA] = [itemU, itemA, itemB]
   \<and> spec_ordering [itemB, itemU, itemA] = [itemU, itemA, itemB]"
proof -
  have w: "withDate [itemB, itemU, itemA]"
    by (simp add: withDate_def itemB_def)
  have p: "\<forall>item\<in>set [itemB, itemU, itemA]. \<forall>d. date item = Some d \<longrightarrow> 0 < d"
    by (simp add: itemA_def itemB_def itemU_def)
  have s: "spec_ordering [itemB, itemU, itemA] = [itemU, itemA, itemB]"
    by (simp add: spec_ordering_def withDate_def itemA_def itemB_def itemU_def)
  from sorted_items_stable_by_date_or_0 [of "[itemB, itemU, itemA]"] w p
  have "sorted_items [itemB, itemU, itemA] = spec_ordering [itemB, itemU, itemA]" by blast
  with w s show ?thesis by simp
qed

text \<open>
  The claim as the specification states it fails on an item dated before the epoch: the
  undated item is sorted after it, not before.
\<close>

theorem sorted_items_undated_not_lowest:
  "withDate [itemU, itemOld]
   \<and> sorted_items [itemU, itemOld] = [itemOld, itemU]
   \<and> sorted_items [itemU, itemOld] \<noteq> spec_ordering [itemU, itemOld]"
  by (simp add: sorted_items_def spec_ordering_def withDate_def itemU_def itemOld_def
                date_cmp_def date_or_0_def)

subsection \<open>The three strategies\<close>

lemma findIndex_drop:
  "(case findIndex (\<lambda>item. item_id item = lid) xs of None \<Rightarrow> [] | Some i \<Rightarrow> drop (i + 1) xs)
     = strictly_after lid xs"
  by (induction xs) (auto split: option.splits)

lemma after_id_strictly_after:
  "lid \<noteq> [] \<Longrightarrow> after_id xs (Some lid) = strictly_after lid xs"
  by (simp add: after_id_def findIndex_drop)

lemma strictly_after_Nil_last:
  "\<exists>item\<in>set xs. item_id item = lid \<Longrightarrow> strictly_after lid xs = [] \<Longrightarrow> item_id (last xs) = lid"
  by (induction xs) (auto split: if_splits)

lemma after_id_not_found:
  assumes "\<forall>item\<in>set xs. Some (item_id item) \<noteq> lastId"
  shows "after_id xs lastId = []"
proof (cases lastId)
  case None
  then show ?thesis by (simp add: after_id_def)
next
  case (Some lid)
  with assms have "\<forall>item\<in>set xs. item_id item \<noteq> lid" by auto
  then have "findIndex (\<lambda>item. item_id item = lid) xs = None"
    by (induction xs) auto
  with Some show ?thesis by (simp add: after_id_def)
qed

text \<open>
  C3. On a non-empty list with no watermark at all, \<^verbatim>\<open>diffItems\<close> reports no new item,
  and its \<^verbatim>\<open>latestItem\<close> is the last element of the ordered list: an item of the list
  whose sort key no other item exceeds.
\<close>

theorem diffItems_first_check:
  assumes "items \<noteq> []"
  shows "diffItems items None None =
           \<lparr>newItems = [], latestItem = Some (last (sorted_items items))\<rparr>
     \<and> last (sorted_items items) \<in> set items
     \<and> (\<forall>item\<in>set items. date_or_0 item \<le> date_or_0 (last (sorted_items items)))"
proof -
  let ?s = "sorted_items items"
  have ne: "?s \<noteq> []" using assms by (simp add: sorted_items_Nil)
  have 1: "diffItems items None None = \<lparr>newItems = [], latestItem = Some (last ?s)\<rparr>"
    using assms by (simp add: diffItems_def)
  have 2: "last ?s \<in> set items" using ne last_in_set set_sorted_items by blast
  have 3: "\<forall>item\<in>set items. date_or_0 item \<le> date_or_0 (last ?s)"
  proof
    fix item assume "item \<in> set items"
    then have "item \<in> set ?s" by (simp add: set_sorted_items)
    then obtain i where i: "i < length ?s" "?s ! i = item" by (auto simp: in_set_conv_nth)
    have "map date_or_0 ?s ! i \<le> map date_or_0 ?s ! (length ?s - 1)"
      using sorted_sorted_items [of items] i(1) by (intro sorted_nth_mono) auto
    then show "date_or_0 item \<le> date_or_0 (last ?s)"
      using i ne by (simp add: last_conv_nth)
  qed
  from 1 2 3 show ?thesis by blast
qed

theorem diffItems_first_check_witness:
  "[itemB, itemA] \<noteq> []
   \<and> diffItems [itemB, itemA] None None = \<lparr>newItems = [], latestItem = Some itemB\<rparr>"
proof -
  have ne: "[itemB, itemA] \<noteq> []" by simp
  have "last (sorted_items [itemB, itemA]) = itemB"
    by (simp add: sorted_items_def withDate_def itemA_def itemB_def date_cmp_def date_or_0_def)
  with diffItems_first_check [OF ne] ne show ?thesis by simp
qed

text \<open>
  C1, as the code has it. For a non-empty \<^verbatim>\<open>lastId\<close> that is the id of some item,
  \<^verbatim>\<open>diffItems\<close> returns exactly the items strictly after the first such item of the
  ordered list, in order, whenever an item follows it, or \<^verbatim>\<open>lastDate\<close> is absent or 0.
  When the item found is the last one and \<^verbatim>\<open>lastDate\<close> is set, the date strategy
  runs: the result is the items whose date is not 0 and is greater than \<^verbatim>\<open>lastDate\<close>.
\<close>

theorem diffItems_after_lastId:
  assumes "lid \<noteq> []" and "\<exists>item\<in>set items. item_id item = lid"
  shows "(strictly_after lid (sorted_items items) \<noteq> [] \<or> \<not> truthy_num lastDate \<longrightarrow>
            newItems (diffItems items (Some lid) lastDate) = strictly_after lid (sorted_items items))
       \<and> (\<forall>ld. strictly_after lid (sorted_items items) = [] \<and> lastDate = Some ld \<and> ld \<noteq> 0 \<longrightarrow>
            newItems (diffItems items (Some lid) lastDate) = filter (newer_than ld) (sorted_items items))"
proof -
  let ?s = "sorted_items items"
  from assms(2) have ne: "items \<noteq> []" by auto
  have found: "\<exists>item\<in>set ?s. item_id item = lid" using assms(2) by (simp add: set_sorted_items)
  have d: "newItems (diffItems items (Some lid) lastDate) =
        catch_up (last ?s) (Some lid) (by_date ?s lastDate (strictly_after lid ?s))"
    using ne assms(1) by (simp add: diffItems_def Let_def after_id_strictly_after)
  show ?thesis
  proof (cases "strictly_after lid ?s = []")
    case False
    then show ?thesis unfolding d by (simp add: by_date_def catch_up_def split: option.splits)
  next
    case True
    then have "item_id (last ?s) = lid" using found strictly_after_Nil_last by blast
    then show ?thesis unfolding d using True
      by (cases lastDate) (simp_all add: by_date_def catch_up_def)
  qed
qed

theorem diffItems_after_lastId_witness:
  "''a'' \<noteq> [] \<and> itemA \<in> set [itemB, itemA] \<and> item_id itemA = ''a''
   \<and> newItems (diffItems [itemB, itemA] (Some ''a'') (Some 1)) = [itemB]"
proof -
  have h1: "''a'' \<noteq> []" by simp
  have h2: "\<exists>item\<in>set [itemB, itemA]. item_id item = ''a''" by (simp add: itemA_def)
  have s: "sorted_items [itemB, itemA] = [itemA, itemB]"
    by (simp add: sorted_items_def withDate_def itemA_def itemB_def date_cmp_def date_or_0_def)
  have "strictly_after ''a'' (sorted_items [itemB, itemA]) = [itemB]"
    by (simp add: s) (simp add: itemA_def)
  with diffItems_after_lastId [OF h1 h2, of "Some 1"] show ?thesis
    by (simp add: itemA_def)
qed

text \<open>
  The claim as the specification states it fails when the item found is the last one and
  the stored date is older than that item's date: the item itself is reported as new.
\<close>

theorem diffItems_lastId_found_last_older_date:
  "item_id itemB = ''b''
   \<and> strictly_after ''b'' (sorted_items [itemA, itemB]) = []
   \<and> newItems (diffItems [itemA, itemB] (Some ''b'') (Some 2)) = [itemB]"
  by (simp add: diffItems_def sorted_items_def withDate_def after_id_def by_date_def catch_up_def
                newer_than_def itemA_def itemB_def date_cmp_def date_or_0_def Let_def)

text \<open>
  C2, as the code has it. When no item has the id \<^verbatim>\<open>lastId\<close> (or \<^verbatim>\<open>lastId\<close> is absent)
  and \<^verbatim>\<open>lastDate\<close> is set and not 0, \<^verbatim>\<open>diffItems\<close> returns the items whose date is
  not 0 and is greater than \<^verbatim>\<open>lastDate\<close>, in ascending date order, when there is one;
  when there is none it returns the single latest item. For a positive \<^verbatim>\<open>lastDate\<close>
  these are exactly the items with a date strictly greater than it.
\<close>

theorem diffItems_date_fallback:
  assumes "\<forall>item\<in>set items. Some (item_id item) \<noteq> lastId" and "ld \<noteq> 0"
  shows "newItems (diffItems items lastId (Some ld)) =
           (if filter (newer_than ld) (sorted_items items) = [] \<and> items \<noteq> []
            then [last (sorted_items items)]
            else filter (newer_than ld) (sorted_items items))
       \<and> sorted (map date_or_0 (filter (newer_than ld) (sorted_items items)))
       \<and> (0 < ld \<longrightarrow> filter (newer_than ld) (sorted_items items)
                        = filter (strictly_newer ld) (sorted_items items))"
proof -
  let ?s = "sorted_items items"
  have nf: "after_id ?s lastId = []"
    using assms(1) by (intro after_id_not_found) (simp add: set_sorted_items)
  have 1: "newItems (diffItems items lastId (Some ld)) =
           (if filter (newer_than ld) ?s = [] \<and> items \<noteq> [] then [last ?s] else filter (newer_than ld) ?s)"
  proof (cases "items = []")
    case True
    then show ?thesis by (simp add: diffItems_def sorted_items_def withDate_def)
  next
    case False
    then have "last ?s \<in> set items"
      using last_in_set set_sorted_items sorted_items_Nil by blast
    with assms(1) have "Some (item_id (last ?s)) \<noteq> lastId" by blast
    then show ?thesis using False assms(2) nf
      by (simp add: diffItems_def Let_def by_date_def catch_up_def)
  qed
  have 2: "sorted (map date_or_0 (filter (newer_than ld) ?s))"
    using sorted_filter [OF sorted_sorted_items] .
  have 3: "0 < ld \<longrightarrow> filter (newer_than ld) ?s = filter (strictly_newer ld) ?s"
    by (auto simp: newer_than_def strictly_newer_def split: option.splits intro!: filter_cong)
  from 1 2 3 show ?thesis by blast
qed

theorem diffItems_date_fallback_witness:
  "(2::int) \<noteq> 0 \<and> newItems (diffItems [itemB, itemA] (Some ''rotated'') (Some 2)) = [itemB]"
proof -
  have h1: "\<forall>item\<in>set [itemB, itemA]. Some (item_id item) \<noteq> Some ''rotated''"
    by (simp add: itemA_def itemB_def)
  have h2: "(2::int) \<noteq> 0" by simp
  have s: "sorted_items [itemB, itemA] = [itemA, itemB]"
    by (simp add: sorted_items_def withDate_def itemA_def itemB_def date_cmp_def date_or_0_def)
  have "filter (newer_than 2) (sorted_items [itemB, itemA]) = [itemB]"
    by (simp add: s) (simp add: newer_than_def itemA_def itemB_def)
  with diffItems_date_fallback [OF h1 h2] show ?thesis by simp
qed

text \<open>
  The claim as the specification states it fails when no item is newer than the stored
  date: the result is not empty, it is the latest item.
\<close>

theorem diffItems_date_fallback_none_newer:
  "filter (strictly_newer 5) (sorted_items [itemA]) = []
   \<and> newItems (diffItems [itemA] None (Some 5)) = [itemA]"
  by (simp add: diffItems_def sorted_items_def withDate_def after_id_def by_date_def catch_up_def
                newer_than_def strictly_newer_def itemA_def Let_def)

section \<open>The diff engine does not touch its argument\<close>

lemma keeps_refl: "keeps h h" by (simp add: keeps_def)

lemma keeps_trans: "keeps h h1 \<Longrightarrow> keeps h1 h2 \<Longrightarrow> keeps h h2"
  by (auto simp: keeps_def)

lemma keeps_at: "keeps h h' \<Longrightarrow> a < brk h \<Longrightarrow> at h' a = at h a"
  by (simp add: keeps_def at_def)

lemma alloc_keeps:
  "alloc xs h = (n, h') \<Longrightarrow> keeps h h' \<and> n < brk h' \<and> at h' n = xs \<and> n = brk h"
  by (auto simp: alloc_def keeps_def at_def)

lemma copy_sorted_keeps:
  assumes "copy_sorted a h = (s, h')"
  shows "keeps h h' \<and> s < brk h' \<and> at h' s = sorted_items (at h a) \<and> s = brk h"
  using assms
  by (auto simp: copy_sorted_def alloc_def sort_at_def keeps_def at_def sorted_items_def
           split: if_splits)

lemma id_step_keeps:
  assumes "id_step s lastId (n, h) = (n', h')" "s < brk h" "n < brk h" "at h n = []"
  shows "keeps h h' \<and> n' < brk h' \<and> at h' n' = after_id (at h s) lastId \<and> (n' = n \<or> n' = brk h)"
  using assms
  by (auto simp: id_step_def after_id_def keeps_refl dest!: alloc_keeps split: option.splits if_splits)

lemma date_step_keeps:
  assumes "date_step s lastDate (n, h) = (n', h')" "s < brk h" "n < brk h"
  shows "keeps h h' \<and> n' < brk h' \<and> at h' n' = by_date (at h s) lastDate (at h n) \<and> (n' = n \<or> n' = brk h)"
  using assms
  by (auto simp: date_step_def by_date_def keeps_refl dest!: alloc_keeps split: option.splits if_splits)

lemma catch_up_step_keeps:
  assumes "catch_up_step latest lastId (n, h) = (n', h')" "n < brk h"
  shows "keeps h h' \<and> n' < brk h' \<and> at h' n' = catch_up latest lastId (at h n) \<and> (n' = n \<or> n' = brk h)"
  using assms
  by (auto simp: catch_up_step_def catch_up_def keeps_refl dest!: alloc_keeps split: option.splits if_splits)

lemma keeps_less: "keeps h h' \<Longrightarrow> a < brk h \<Longrightarrow> a < brk h'"
  by (simp add: keeps_def)

lemma keeps_brk: "keeps h h' \<Longrightarrow> brk h \<le> brk h'"
  by (simp add: keeps_def)

lemma diffItems_heap_main:
  assumes "cells h a = Some xs"
  shows "\<exists>r h'. diffItems_heap h a lastId lastDate = Some (r, h') \<and> keeps h h'
          \<and> brk h \<le> newItems_at r
          \<and> \<lparr>newItems = at h' (newItems_at r), latestItem = latestItem_of r\<rparr>
              = diffItems xs lastId lastDate"
proof (cases "xs = []")
  case True
  obtain n h1 where a: "alloc [] h = (n, h1)" by (cases "alloc [] h")
  from alloc_keeps [OF a] True assms a show ?thesis
    by (auto simp: diffItems_heap_def diffItems_def)
next
  case False
  have xs: "at h a = xs" using assms by (simp add: at_def)
  obtain s h2 where c: "copy_sorted a h = (s, h2)" by (cases "copy_sorted a h")
  from copy_sorted_keeps [OF c] xs
  have k2: "keeps h h2" and s2: "s < brk h2" and as: "at h2 s = sorted_items xs" by auto
  have b2: "brk h \<le> brk h2" using k2 by (rule keeps_brk)
  show ?thesis
  proof (cases "\<not> truthy_str lastId \<and> \<not> truthy_num lastDate")
    case True
    obtain n h3 where a: "alloc [] h2 = (n, h3)" by (cases "alloc [] h2")
    from alloc_keeps [OF a] have "keeps h2 h3" "at h3 n = []" "n = brk h2" by auto
    with k2 b2 have "keeps h h3" "brk h \<le> n" using keeps_trans by auto
    then show ?thesis using True False assms c a as \<open>at h3 n = []\<close>
      by (simp add: diffItems_heap_def diffItems_def)
  next
    case nf: False
    obtain n0 h3 where a0: "alloc [] h2 = (n0, h3)" by (cases "alloc [] h2")
    obtain n1 h4 where a1: "id_step s lastId (n0, h3) = (n1, h4)"
      by (cases "id_step s lastId (n0, h3)")
    obtain n2 h5 where a2: "date_step s lastDate (n1, h4) = (n2, h5)"
      by (cases "date_step s lastDate (n1, h4)")
    obtain n3 h6 where a3: "catch_up_step (last (at h2 s)) lastId (n2, h5) = (n3, h6)"
      by (cases "catch_up_step (last (at h2 s)) lastId (n2, h5)")
    from alloc_keeps [OF a0]
    have k3: "keeps h2 h3" and n0: "n0 < brk h3" and e0: "at h3 n0 = []" and f0: "n0 = brk h2"
      by auto
    have s3: "s < brk h3" using k3 s2 keeps_less by blast
    have as3: "at h3 s = sorted_items xs" using keeps_at [OF k3 s2] as by simp
    from id_step_keeps [OF a1 s3 n0 e0] as3
    have k4: "keeps h3 h4" and n1: "n1 < brk h4"
      and e1: "at h4 n1 = after_id (sorted_items xs) lastId"
      and f1: "n1 = n0 \<or> n1 = brk h3" by auto
    have s4: "s < brk h4" using k4 s3 keeps_less by blast
    have as4: "at h4 s = sorted_items xs" using keeps_at [OF k4 s3] as3 by simp
    from date_step_keeps [OF a2 s4 n1] as4 e1
    have k5: "keeps h4 h5" and n2: "n2 < brk h5"
      and e2: "at h5 n2 = by_date (sorted_items xs) lastDate (after_id (sorted_items xs) lastId)"
      and f2: "n2 = n1 \<or> n2 = brk h4" by auto
    from catch_up_step_keeps [OF a3 n2] e2 as
    have k6: "keeps h5 h6"
      and e3: "at h6 n3 = catch_up (last (sorted_items xs)) lastId
                 (by_date (sorted_items xs) lastDate (after_id (sorted_items xs) lastId))"
      and f3: "n3 = n2 \<or> n3 = brk h5" by auto
    have k: "keeps h h6" using k2 k3 k4 k5 k6 keeps_trans by blast
    have "brk h2 \<le> brk h3" "brk h3 \<le> brk h4" "brk h4 \<le> brk h5"
      using k3 k4 k5 by (simp_all add: keeps_brk)
    with b2 f0 f1 f2 f3 have fresh: "brk h \<le> n3" by auto
    show ?thesis using k fresh nf False assms c a0 a1 a2 a3 as e3
      by (auto simp: diffItems_heap_def diffItems_def Let_def)
  qed
qed

text \<open>
  C9. \<^verbatim>\<open>diffItems\<close> never mutates its input. Run on a store of arrays, with the argument
  array at an allocated address, it returns, and afterwards that address holds the same
  elements in the same order, as does every other array allocated before the call: the
  in-place sort is applied to the spread copy. The array it returns is a new one, and holds
  what the function computes on values.
\<close>

theorem diffItems_heap_keeps_input:
  assumes "cells h items = Some xs" and "items < brk h"
  shows "\<exists>r h'. diffItems_heap h items lastId lastDate = Some (r, h')
           \<and> cells h' items = Some xs
           \<and> (\<forall>b<brk h. cells h' b = cells h b)
           \<and> brk h \<le> newItems_at r
           \<and> \<lparr>newItems = at h' (newItems_at r), latestItem = latestItem_of r\<rparr>
               = diffItems xs lastId lastDate"
proof -
  from diffItems_heap_main [OF assms(1), of lastId lastDate]
  obtain r h' where r: "diffItems_heap h items lastId lastDate = Some (r, h')"
    and k: "keeps h h'"
    and n: "brk h \<le> newItems_at r"
    and v: "\<lparr>newItems = at h' (newItems_at r), latestItem = latestItem_of r\<rparr>
              = diffItems xs lastId lastDate"
    by blast
  from k have f: "\<forall>b<brk h. cells h' b = cells h b" by (simp add: keeps_def)
  with assms have "cells h' items = Some xs" by simp
  with r f n v show ?thesis by blast
qed

theorem diffItems_heap_keeps_input_witness:
  "cells heap0 0 = Some [itemB, itemA] \<and> 0 < brk heap0
   \<and> (\<exists>r h'. diffItems_heap heap0 0 (Some ''a'') (Some 1) = Some (r, h')
          \<and> cells h' 0 = Some [itemB, itemA]
          \<and> newItems (diffItems [itemB, itemA] (Some ''a'') (Some 1)) = at h' (newItems_at r))"
proof -
  have h1: "cells heap0 0 = Some [itemB, itemA]" by (simp add: heap0_def)
  have h2: "0 < brk heap0" by (simp add: heap0_def)
  from diffItems_heap_keeps_input [OF h1 h2, of "Some ''a''" "Some 1"]
  obtain r h' where "diffItems_heap heap0 0 (Some ''a'') (Some 1) = Some (r, h')"
    and "cells h' 0 = Some [itemB, itemA]"
    and "\<lparr>newItems = at h' (newItems_at r), latestItem = latestItem_of r\<rparr>
           = diffItems [itemB, itemA] (Some ''a'') (Some 1)"
    by blast
  then have "diffItems_heap heap0 0 (Some ''a'') (Some 1) = Some (r, h')
          \<and> cells h' 0 = Some [itemB, itemA]
          \<and> newItems (diffItems [itemB, itemA] (Some ''a'') (Some 1)) = at h' (newItems_at r)"
    by (metis DiffResult.select_convs(1))
  with h1 h2 show ?thesis by blast
qed

section \<open>Properties of the guild index\<close>

subsection \<open>The namespace\<close>

lemma lookup_put: "lookup (kv_put s k v) k' = (if k' = k then Some v else lookup s k')"
proof -
  have "map_of (filter (\<lambda>e. fst e \<noteq> k) xs) k' = (if k' = k then None else map_of xs k')"
    for xs :: "(string \<times> stored) list"
    by (induction xs) auto
  then show ?thesis by (simp add: lookup_def kv_put_def)
qed

lemma puts_put: "puts (kv_put s k v) = puts s @ [(k, v)]"
  by (simp add: kv_put_def)

lemma get_index_put: "get_index (kv_put s k (IdsJ ids)) k = Inr (Some ids)"
  by (simp add: get_index_def kv_get_def lookup_put)

lemma get_index_cases:
  "get_index s k = Inr r \<Longrightarrow>
   index_or_empty r = (case lookup s k of Some (IdsJ ids) \<Rightarrow> ids | _ \<Rightarrow> [])"
  by (auto simp: get_index_def kv_get_def index_or_empty_def split: option.splits stored.splits)

lemma get_index_readable:
  "readable_index s guild \<Longrightarrow>
   get_index s (guildIndexKey guild) =
     Inr (case lookup s (guildIndexKey guild) of
            None \<Rightarrow> None | Some (IdsJ ids) \<Rightarrow> Some ids | _ \<Rightarrow> None)"
  by (auto simp: readable_index_def get_index_def kv_get_def split: option.splits stored.splits)

text \<open>The paging loop returns every key with the prefix, once.\<close>

lemma listAllKeys_loop_eq:
  "listAllKeys_loop s p cur keys =
     keys @ drop (case cur of None \<Rightarrow> 0 | Some c \<Rightarrow> c) (keys_with s p)"
proof (induction s p cur keys rule: listAllKeys_loop.induct)
  case (1 s p cur keys)
  let ?start = "case cur of None \<Rightarrow> 0 | Some c \<Rightarrow> c"
  let ?rest = "drop ?start (keys_with s p)"
  show ?case
  proof (cases "length ?rest \<le> KV_LIST_LIMIT")
    case True
    then show ?thesis
      by (subst listAllKeys_loop.simps) (simp add: kv_list_def Let_def)
  next
    case False
    have "listAllKeys_loop s p cur keys =
          listAllKeys_loop s p (Some (?start + KV_LIST_LIMIT)) (keys @ take KV_LIST_LIMIT ?rest)"
      using False by (subst listAllKeys_loop.simps) (simp add: kv_list_def Let_def)
    also have "\<dots> = (keys @ take KV_LIST_LIMIT ?rest) @ drop (?start + KV_LIST_LIMIT) (keys_with s p)"
      using False "1.IH" [OF refl refl] by (simp add: kv_list_def Let_def)
    also have "\<dots> = keys @ ?rest"
      by (simp add: add.commute) (metis append_take_drop_id drop_drop add.commute)
    finally show ?thesis .
  qed
qed

lemma listAllKeys_eq: "listAllKeys s p = keys_with s p"
  by (simp add: listAllKeys_def listAllKeys_loop_eq)

lemma set_keys_with: "set (keys_with s p) = {key. startsWith key p \<and> lookup s key \<noteq> None}"
  by (auto simp: keys_with_def lookup_def map_of_eq_None_iff image_iff)

lemma distinct_keys_with: "distinct (keys_with s p)"
  by (simp add: keys_with_def)

lemma get_all_ok:
  assumes "\<forall>key\<in>set keys. lookup s key \<noteq> Some NotJson \<and> (\<forall>ids. lookup s key \<noteq> Some (IdsJ ids))"
  shows "get_all s keys = Inr (map (sub_at s) keys)"
  using assms
proof (induction keys)
  case Nil
  then show ?case by simp
next
  case (Cons k ks)
  then have "get_subscription s k = Inr (sub_at s k)"
    by (auto simp: get_subscription_def kv_get_def sub_at_def split: option.splits stored.splits)
  with Cons show ?case by simp
qed

lemma get_all_Inr:
  "get_all s keys = Inr rs \<Longrightarrow> rs = map (sub_at s) keys"
proof (induction keys arbitrary: rs)
  case Nil
  then show ?case by simp
next
  case (Cons k ks)
  then show ?case
    by (auto simp: get_subscription_def kv_get_def sub_at_def
             split: sum.splits option.splits stored.splits)
qed

lemma non_null_map_Some:
  "\<forall>x\<in>set xs. f x \<noteq> None \<Longrightarrow> length (non_null (map f xs)) = length xs"
  by (induction xs) auto

lemma non_null_short:
  "length (non_null (map f xs)) \<noteq> length xs \<Longrightarrow> \<exists>x\<in>set xs. f x = None"
proof (rule ccontr)
  assume a: "length (non_null (map f xs)) \<noteq> length xs" and "\<not> (\<exists>x\<in>set xs. f x = None)"
  then have "\<forall>x\<in>set xs. f x \<noteq> None" by simp
  from non_null_map_Some [OF this] a show False by simp
qed

lemma set_non_null_map: "set (non_null (map f xs)) = {r. \<exists>x\<in>set xs. f x = Some r}"
proof (induction xs)
  case Nil
  then show ?case by simp
next
  case (Cons a xs)
  then show ?case by (cases "f a") auto
qed

lemma resolves_sub_at: "resolves s guild j = (sub_at s (subscriptionKey guild j) \<noteq> None)"
  by (simp add: resolves_def sub_at_def split: option.splits stored.splits)

lemma sub_at_Some: "(sub_at s key = Some sub) = (lookup s key = Some (SubJ sub))"
  by (simp add: sub_at_def split: option.splits stored.splits)

subsection \<open>The two branches of the listing\<close>

lemma listing_from_index:
  "get_index s (guildIndexKey guild) = Inr (Some l) \<Longrightarrow> l \<noteq> [] \<Longrightarrow>
   getSubscriptionsForGuild s guild = from_index s guild l"
  by (cases l) (simp_all add: getSubscriptionsForGuild_def)

lemma listing_from_scan:
  "get_index s (guildIndexKey guild) = Inr r \<Longrightarrow> index_or_empty r = [] \<Longrightarrow>
   getSubscriptionsForGuild s guild = from_scan s guild"
  by (auto simp: getSubscriptionsForGuild_def index_or_empty_def split: option.splits)

lemma from_index_all_valid:
  assumes "\<forall>i\<in>set l. resolves s guild i"
  shows "from_index s guild l = Inr (non_null (map (sub_at s) (map (subscriptionKey guild) l)), s)"
proof -
  let ?keys = "map (subscriptionKey guild) l"
  have ok: "\<forall>key\<in>set ?keys. lookup s key \<noteq> Some NotJson \<and> (\<forall>ids. lookup s key \<noteq> Some (IdsJ ids))"
    using assms by (auto simp: resolves_def split: option.splits stored.splits)
  have "\<forall>key\<in>set ?keys. sub_at s key \<noteq> None"
    using assms by (auto simp: resolves_def sub_at_def split: option.splits stored.splits)
  then have "length (non_null (map (sub_at s) ?keys)) = length l"
    using non_null_map_Some [of ?keys "sub_at s"] by simp
  then show ?thesis
    unfolding from_index_def get_all_ok [OF ok] by (simp add: Let_def)
qed

lemma from_index_writes:
  assumes "from_index s guild l = Inr (subs, s')" "puts s' \<noteq> puts s"
  shows "\<exists>i\<in>set l. \<not> resolves s guild i"
proof -
  let ?keys = "map (subscriptionKey guild) l"
  obtain rs where ga: "get_all s ?keys = Inr rs"
    using assms(1) by (auto simp: from_index_def split: sum.splits)
  have rs: "rs = map (sub_at s) ?keys" using get_all_Inr [OF ga] .
  have "length (non_null rs) \<noteq> length l"
    using assms ga by (auto simp: from_index_def Let_def split: if_splits)
  then have "length (non_null (map (sub_at s) ?keys)) \<noteq> length ?keys" by (simp add: rs)
  then obtain key where "key \<in> set ?keys" "sub_at s key = None"
    using non_null_short by blast
  then obtain j where "j \<in> set l" "sub_at s (subscriptionKey guild j) = None" by auto
  then show ?thesis
    using resolves_sub_at by blast
qed

subsection \<open>Adding and removing an id\<close>

text \<open>
  C6, as the code has it. When the index can be read and does not list the id,
  \<^verbatim>\<open>addToIndex\<close> followed by \<^verbatim>\<open>removeFromIndex\<close> for that id succeeds and leaves the
  index with the ids it had, in the same order, and every other key as it was. (An id the
  index already lists is removed by the pair of calls.)
\<close>

theorem add_then_remove_restores_index:
  assumes "readable_index s guild" and "subId \<notin> set (index_ids s guild)"
  shows "\<exists>s'. add_then_remove s guild subId = Inr s'
            \<and> index_ids s' guild = index_ids s guild
            \<and> (\<forall>key. key \<noteq> guildIndexKey guild \<longrightarrow> lookup s' key = lookup s key)"
proof -
  let ?k = "guildIndexKey guild"
  let ?ids = "index_ids s guild"
  let ?s1 = "kv_put s ?k (IdsJ (?ids @ [subId]))"
  let ?s2 = "kv_put ?s1 ?k (IdsJ ?ids)"
  obtain r where r: "get_index s ?k = Inr r" and ids: "index_or_empty r = ?ids"
    using assms(1) get_index_readable [OF assms(1)]
    by (auto simp: index_or_empty_def index_ids_def readable_index_def
             split: option.splits stored.splits)
  have add: "addToIndex s guild subId = Inr ?s1"
    using r ids assms(2) by (simp add: addToIndex_def Let_def)
  have f: "filter (\<lambda>i. i \<noteq> subId) ?ids = ?ids"
    using assms(2) by (auto simp: filter_id_conv)
  have rem: "removeFromIndex ?s1 guild subId = Inr ?s2"
    by (simp add: removeFromIndex_def Let_def get_index_put index_or_empty_def f)
  have "add_then_remove s guild subId = Inr ?s2"
    by (simp add: add_then_remove_def add rem)
  moreover have "index_ids ?s2 guild = ?ids"
    unfolding index_ids_def [of ?s2] by (simp add: lookup_put)
  moreover have "\<forall>key. key \<noteq> ?k \<longrightarrow> lookup ?s2 key = lookup s key"
    by (simp add: lookup_put)
  ultimately show ?thesis by blast
qed

theorem add_then_remove_restores_index_witness:
  "readable_index kv_indexed ''g1'' \<and> ''s2'' \<notin> set (index_ids kv_indexed ''g1'')
   \<and> (\<exists>s'. add_then_remove kv_indexed ''g1'' ''s2'' = Inr s' \<and> index_ids s' ''g1'' = [''s1''])"
proof -
  have h1: "readable_index kv_indexed ''g1''"
    by (simp add: readable_index_def kv_indexed_def lookup_def guildIndexKey_def)
  have i: "index_ids kv_indexed ''g1'' = [''s1'']"
    by (simp add: index_ids_def kv_indexed_def lookup_def guildIndexKey_def)
  then have h2: "''s2'' \<notin> set (index_ids kv_indexed ''g1'')" by simp
  from add_then_remove_restores_index [OF h1 h2] i h1 h2 show ?thesis by auto
qed

text \<open>
  The claim as the specification states it, for every index and every id, fails on an id
  the index already lists: the index loses it.
\<close>

theorem add_then_remove_listed_id:
  "index_ids kv_indexed ''g1'' = [''s1'']
   \<and> add_then_remove kv_indexed ''g1'' ''s1'' =
       Inr (kv_put kv_indexed ''subindex:g:g1'' (IdsJ []))
   \<and> index_ids (kv_put kv_indexed ''subindex:g:g1'' (IdsJ [])) ''g1'' = []"
  by (simp add: add_then_remove_def addToIndex_def removeFromIndex_def kv_indexed_def
                get_index_def kv_get_def lookup_def guildIndexKey_def index_or_empty_def
                index_ids_def kv_put_def Let_def)

text \<open>
  For an id the index already lists, \<^verbatim>\<open>addToIndex\<close> writes nothing and
  \<^verbatim>\<open>removeFromIndex\<close> then stores the index without that id.
\<close>

lemma add_then_remove_listed:
  assumes "readable_index s guild" and "subId \<in> set (index_ids s guild)"
  shows "addToIndex s guild subId = Inr s
       \<and> add_then_remove s guild subId =
           Inr (kv_put s (guildIndexKey guild)
                  (IdsJ (filter (\<lambda>i. i \<noteq> subId) (index_ids s guild))))"
proof -
  let ?k = "guildIndexKey guild"
  let ?ids = "index_ids s guild"
  obtain r where r: "get_index s ?k = Inr r" and ids: "index_or_empty r = ?ids"
    using assms(1) get_index_readable [OF assms(1)]
    by (auto simp: index_or_empty_def index_ids_def readable_index_def
             split: option.splits stored.splits)
  have add: "addToIndex s guild subId = Inr s"
    using r ids assms(2) by (simp add: addToIndex_def Let_def)
  have "length (filter (\<lambda>i. i \<noteq> subId) ?ids) < length ?ids"
    using assms(2) by (simp add: length_filter_less)
  then have rem: "removeFromIndex s guild subId =
                  Inr (kv_put s ?k (IdsJ (filter (\<lambda>i. i \<noteq> subId) ?ids)))"
    using r ids by (simp add: removeFromIndex_def Let_def)
  from add rem show ?thesis by (simp add: add_then_remove_def)
qed

subsection \<open>Listing\<close>

text \<open>
  C7, as the code has it. When the index of a guild is missing or empty, and every text
  stored under the guild's key prefix deserialises to a subscription, the listing succeeds
  and returns every subscription record of the guild: as many as there are keys with the
  prefix. The index stored afterwards lists exactly the ids of the records returned, and no
  other key has changed.
\<close>

theorem listing_rebuilds_index:
  assumes "lookup s (guildIndexKey guild) = None \<or> lookup s (guildIndexKey guild) = Some (IdsJ [])"
    and "\<forall>key. startsWith key (guildPrefix guild) \<longrightarrow>
            lookup s key \<noteq> Some NotJson \<and> (\<forall>ids. lookup s key \<noteq> Some (IdsJ ids))"
  shows "\<exists>s'. getSubscriptionsForGuild s guild = Inr (tenant_records s guild, s')
           \<and> index_ids s' guild = map sub_id (tenant_records s guild)
           \<and> (\<forall>key. key \<noteq> guildIndexKey guild \<longrightarrow> lookup s' key = lookup s key)
           \<and> set (tenant_records s guild) =
                 {sub. \<exists>key. startsWith key (guildPrefix guild) \<and> lookup s key = Some (SubJ sub)}
           \<and> length (tenant_records s guild) =
                 card {key. startsWith key (guildPrefix guild) \<and> lookup s key \<noteq> None}"
proof -
  let ?p = "guildPrefix guild"
  let ?k = "guildIndexKey guild"
  let ?T = "tenant_records s guild"
  have gi: "get_index s ?k = Inr None \<or> get_index s ?k = Inr (Some [])"
    using assms(1) by (auto simp: get_index_def kv_get_def)
  have ok: "\<forall>key\<in>set (keys_with s ?p).
              lookup s key \<noteq> Some NotJson \<and> (\<forall>ids. lookup s key \<noteq> Some (IdsJ ids))"
    using assms(2) by (simp add: set_keys_with)
  have scan: "listSubscriptionsByGuild s guild = Inr ?T"
    by (simp add: listSubscriptionsByGuild_def listAllKeys_eq get_all_ok [OF ok] tenant_records_def)
  let ?s' = "if ?T \<noteq> [] then kv_put s ?k (IdsJ (map sub_id ?T)) else s"
  have fs: "from_scan s guild = Inr (?T, ?s')"
    by (simp add: from_scan_def scan)
  have 1: "getSubscriptionsForGuild s guild = Inr (?T, ?s')"
    using gi fs by (auto simp: getSubscriptionsForGuild_def)
  have 2: "index_ids ?s' guild = map sub_id ?T"
    using assms(1) by (auto simp: index_ids_def lookup_put)
  have 3: "\<forall>key. key \<noteq> ?k \<longrightarrow> lookup ?s' key = lookup s key"
    by (simp add: lookup_put)
  have some: "sub_at s key \<noteq> None" if "key \<in> set (keys_with s ?p)" for key
    using that ok by (auto simp: set_keys_with sub_at_def split: option.splits stored.splits)
  have 4: "set ?T = {sub. \<exists>key. startsWith key ?p \<and> lookup s key = Some (SubJ sub)}"
  proof -
    have "set ?T = {sub. \<exists>key\<in>set (keys_with s ?p). sub_at s key = Some sub}"
      by (simp add: tenant_records_def set_non_null_map)
    also have "\<dots> = {sub. \<exists>key. startsWith key ?p \<and> lookup s key = Some (SubJ sub)}"
      by (auto simp: set_keys_with sub_at_Some)
    finally show ?thesis .
  qed
  have "length ?T = length (keys_with s ?p)"
    unfolding tenant_records_def using some by (intro non_null_map_Some) blast
  also have "\<dots> = card (set (keys_with s ?p))"
    by (simp add: distinct_card distinct_keys_with)
  finally have 5: "length ?T = card {key. startsWith key ?p \<and> lookup s key \<noteq> None}"
    by (simp add: set_keys_with)
  from 1 2 3 4 5 show ?thesis by blast
qed

theorem listing_rebuilds_index_witness:
  "lookup kv_no_index (guildIndexKey ''g1'') = None
   \<and> (\<exists>s'. getSubscriptionsForGuild kv_no_index ''g1'' = Inr ([sub1], s')
            \<and> index_ids s' ''g1'' = [''s1''])"
proof -
  have l: "lookup kv_no_index (guildIndexKey ''g1'') = None"
    by (simp add: lookup_def kv_no_index_def guildIndexKey_def)
  then have h1: "lookup kv_no_index (guildIndexKey ''g1'') = None
               \<or> lookup kv_no_index (guildIndexKey ''g1'') = Some (IdsJ [])" by simp
  have h2: "\<forall>key. startsWith key (guildPrefix ''g1'') \<longrightarrow>
              lookup kv_no_index key \<noteq> Some NotJson
              \<and> (\<forall>ids. lookup kv_no_index key \<noteq> Some (IdsJ ids))"
    by (simp add: lookup_def kv_no_index_def)
  have t: "tenant_records kv_no_index ''g1'' = [sub1]"
    by (simp add: tenant_records_def keys_with_def kv_no_index_def guildPrefix_def
                  startsWith_def sub_at_def lookup_def)
  have i: "map sub_id [sub1] = [''s1'']" by (simp add: sub1_def)
  from listing_rebuilds_index [OF h1 h2] l show ?thesis
    unfolding t i by blast
qed

text \<open>
  The claim as the specification states it fails for an index that does not deserialise:
  the read of the index is rejected, and the listing returns nothing and repairs nothing.
\<close>

theorem listing_rejects_on_bad_index:
  "lookup kv_bad_index (guildIndexKey ''g1'') = Some NotJson
   \<and> tenant_records kv_bad_index ''g1'' = [sub1]
   \<and> getSubscriptionsForGuild kv_bad_index ''g1'' = Inl (Error ''SyntaxError'')"
  by (simp add: getSubscriptionsForGuild_def get_index_def kv_get_def lookup_def
                kv_bad_index_def guildIndexKey_def tenant_records_def keys_with_def
                guildPrefix_def startsWith_def sub_at_def)

text \<open>
  The listing is rejected when the index is not JSON, and when the index is missing or
  empty and some text stored under the prefix of the guild is not JSON. A rejected call has
  written nothing: it returns no namespace.
\<close>

lemma get_all_rejects:
  "key \<in> set keys \<Longrightarrow> lookup s key = Some NotJson \<Longrightarrow> \<exists>e. get_all s keys = Inl e"
proof (induction keys)
  case Nil
  then show ?case by simp
next
  case (Cons k ks)
  show ?case
  proof (cases "key = k")
    case True
    with Cons.prems have "get_subscription s k = Inl (Error ''SyntaxError'')"
      by (simp add: get_subscription_def kv_get_def)
    then show ?thesis by simp
  next
    case False
    with Cons obtain e where "get_all s ks = Inl e" by auto
    then show ?thesis by (cases "get_subscription s k") simp_all
  qed
qed

lemma listing_rejects_non_json_index:
  "lookup s (guildIndexKey guild) = Some NotJson \<Longrightarrow>
   getSubscriptionsForGuild s guild = Inl (Error ''SyntaxError'')"
  by (simp add: getSubscriptionsForGuild_def get_index_def kv_get_def)

lemma listing_rejects_non_json_record:
  assumes "lookup s (guildIndexKey guild) = None \<or> lookup s (guildIndexKey guild) = Some (IdsJ [])"
    and "startsWith key (guildPrefix guild)" and "lookup s key = Some NotJson"
  shows "\<exists>e. getSubscriptionsForGuild s guild = Inl e"
proof -
  have gi: "get_index s (guildIndexKey guild) = Inr None
          \<or> get_index s (guildIndexKey guild) = Inr (Some [])"
    using assms(1) by (auto simp: get_index_def kv_get_def)
  have "key \<in> set (keys_with s (guildPrefix guild))"
    using assms(2,3) by (simp add: set_keys_with)
  from get_all_rejects [OF this assms(3)]
  obtain e where "get_all s (listAllKeys s (guildPrefix guild)) = Inl e"
    by (auto simp: listAllKeys_eq)
  then have "from_scan s guild = Inl e"
    by (simp add: from_scan_def listSubscriptionsByGuild_def)
  with gi show ?thesis by (auto simp: getSubscriptionsForGuild_def)
qed

text \<open>
  C10. When the stored index is not empty and every id it lists resolves to a
  subscription record, the listing returns and the namespace after it is the namespace
  before it, write log included: nothing was written. Whenever the listing does write,
  it writes one record, the index of the guild, and either some listed id did not
  resolve, or the index was missing or empty and the scan found a subscription.
\<close>

theorem listing_writes_only_to_repair:
  "(index_ids s guild \<noteq> [] \<and> (\<forall>i\<in>set (index_ids s guild). resolves s guild i)
      \<longrightarrow> (\<exists>subs. getSubscriptionsForGuild s guild = Inr (subs, s)))
   \<and> (\<forall>subs s'. getSubscriptionsForGuild s guild = Inr (subs, s') \<and> puts s' \<noteq> puts s
      \<longrightarrow> puts s' = puts s @ [(guildIndexKey guild, IdsJ (map sub_id subs))]
          \<and> ((\<exists>i\<in>set (index_ids s guild). \<not> resolves s guild i)
               \<or> (index_ids s guild = [] \<and> subs \<noteq> [])))"
proof (intro conjI impI allI)
  let ?k = "guildIndexKey guild"
  assume a: "index_ids s guild \<noteq> [] \<and> (\<forall>i\<in>set (index_ids s guild). resolves s guild i)"
  then obtain l where l: "lookup s ?k = Some (IdsJ l)" "l \<noteq> []"
    by (auto simp: index_ids_def split: option.splits stored.splits)
  then have gi: "get_index s ?k = Inr (Some l)"
    by (simp add: get_index_def kv_get_def)
  have "\<forall>j\<in>set l. resolves s guild j" using a l by (simp add: index_ids_def)
  then show "\<exists>subs. getSubscriptionsForGuild s guild = Inr (subs, s)"
    using from_index_all_valid listing_from_index [OF gi l(2)] by simp
next
  fix subs s'
  assume "getSubscriptionsForGuild s guild = Inr (subs, s') \<and> puts s' \<noteq> puts s"
  then show "puts s' = puts s @ [(guildIndexKey guild, IdsJ (map sub_id subs))]"
    by (auto simp: getSubscriptionsForGuild_def from_index_def from_scan_def Let_def puts_put
             split: sum.splits option.splits list.splits if_splits)
next
  fix subs s'
  let ?k = "guildIndexKey guild"
  assume a: "getSubscriptionsForGuild s guild = Inr (subs, s') \<and> puts s' \<noteq> puts s"
  then obtain r where gi: "get_index s ?k = Inr r"
    by (auto simp: getSubscriptionsForGuild_def split: sum.splits)
  have ids: "index_ids s guild = index_or_empty r"
    using get_index_cases [OF gi] by (simp add: index_ids_def)
  show "(\<exists>i\<in>set (index_ids s guild). \<not> resolves s guild i)
        \<or> (index_ids s guild = [] \<and> subs \<noteq> [])"
  proof (cases "index_or_empty r = []")
    case True
    then have "from_scan s guild = Inr (subs, s')"
      using a listing_from_scan [OF gi] by simp
    with a have "subs \<noteq> []"
      by (auto simp: from_scan_def split: sum.splits if_splits)
    with True ids show ?thesis by simp
  next
    case False
    then have r: "r = Some (index_or_empty r)"
      by (auto simp: index_or_empty_def split: option.splits)
    have "from_index s guild (index_or_empty r) = Inr (subs, s')"
      using a listing_from_index [of s guild "index_or_empty r"] gi r False by simp
    then show ?thesis using from_index_writes a ids by metis
  qed
qed

theorem listing_writes_only_to_repair_witness:
  "index_ids kv_indexed ''g1'' \<noteq> [] \<and> resolves kv_indexed ''g1'' ''s1''
   \<and> (\<exists>subs. getSubscriptionsForGuild kv_indexed ''g1'' = Inr (subs, kv_indexed))"
proof -
  have i: "index_ids kv_indexed ''g1'' = [''s1'']"
    by (simp add: index_ids_def kv_indexed_def lookup_def guildIndexKey_def)
  have r: "resolves kv_indexed ''g1'' ''s1''"
    by (simp add: resolves_def kv_indexed_def lookup_def subscriptionKey_def)
  from listing_writes_only_to_repair [of kv_indexed "''g1''"] i r show ?thesis by simp
qed

section \<open>Properties of the normalizer\<close>

lemma first_non_empty_of_present:
  "first_present [a, b, Some c] = Some v \<Longrightarrow> v \<noteq> [] \<Longrightarrow> first_non_empty [a, b, Some c] = Some v"
  by (cases a; cases b) (auto split: if_splits)

text \<open>
  C5, as the code has it. For every item or entry that normalizes to a \<^verbatim>\<open>FeedItem\<close>, the
  link of the result is the resolved link, and the id is the first value that is present
  among the text of the guid (for an Atom entry, of the id), the link and the title, in
  that order, where an empty string is present: the worker chooses with \<^verbatim>\<open>??\<close>. Whenever
  the id is not empty, it is the first non-empty one of the three.
\<close>

theorem normalized_id_is_first_present:
  "(normalizeRssItem P item = Inr (Some it) \<longrightarrow>
      as_string (pickLink (js_prop item ''link'')) = Inr (link it)
      \<and> Some (item_id it) = first_present [pickText (js_prop item ''guid''), link it, Some (title it)]
      \<and> (item_id it \<noteq> [] \<longrightarrow>
           Some (item_id it) = first_non_empty [pickText (js_prop item ''guid''), link it, Some (title it)]))
   \<and> (normalizeAtomEntry P entry = Inr (Some it') \<longrightarrow>
      as_string (pickLink (js_prop entry ''link'')) = Inr (link it')
      \<and> Some (item_id it') = first_present [pickText (js_prop entry ''id''), link it', Some (title it')]
      \<and> (item_id it' \<noteq> [] \<longrightarrow>
           Some (item_id it') = first_non_empty [pickText (js_prop entry ''id''), link it', Some (title it')]))"
proof (intro conjI impI)
  assume a: "normalizeRssItem P item = Inr (Some it)"
  then show "as_string (pickLink (js_prop item ''link'')) = Inr (link it)"
    by (auto simp: normalizeRssItem_def Let_def split: if_splits sum.splits)
  from a show f: "Some (item_id it) = first_present [pickText (js_prop item ''guid''), link it, Some (title it)]"
    by (auto simp: normalizeRssItem_def Let_def split: if_splits sum.splits option.splits)
  assume "item_id it \<noteq> []"
  with f show "Some (item_id it) = first_non_empty [pickText (js_prop item ''guid''), link it, Some (title it)]"
    using first_non_empty_of_present by metis
next
  assume a: "normalizeAtomEntry P entry = Inr (Some it')"
  then show "as_string (pickLink (js_prop entry ''link'')) = Inr (link it')"
    by (auto simp: normalizeAtomEntry_def Let_def split: if_splits sum.splits)
  from a show f: "Some (item_id it') = first_present [pickText (js_prop entry ''id''), link it', Some (title it')]"
    by (auto simp: normalizeAtomEntry_def Let_def split: if_splits sum.splits option.splits)
  assume "item_id it' \<noteq> []"
  with f show "Some (item_id it') = first_non_empty [pickText (js_prop entry ''id''), link it', Some (title it')]"
    using first_non_empty_of_present by metis
qed

theorem normalized_id_is_first_present_witness:
  "normalizeRssItem platform0 rss_item =
     Inr (Some \<lparr>item_id = ''tag:1'', title = ''T'', link = Some ''http://a/1'',
                date = None, summary = None\<rparr>)
   \<and> normalizeAtomEntry platform0 atom_entry =
     Inr (Some \<lparr>item_id = ''http://a/e1'', title = ''E'', link = Some ''http://a/e1'',
                date = None, summary = None\<rparr>)
   \<and> first_non_empty [pickText (js_prop rss_item ''guid''), Some ''http://a/1'', Some ''T'']
       = Some ''tag:1''
   \<and> first_non_empty [pickText (js_prop atom_entry ''id''), Some ''http://a/e1'', Some ''E'']
       = Some ''http://a/e1''"
proof -
  let ?it = "\<lparr>item_id = ''tag:1'', title = ''T'', link = Some ''http://a/1'',
               date = None, summary = None\<rparr>"
  let ?it' = "\<lparr>item_id = ''http://a/e1'', title = ''E'', link = Some ''http://a/e1'',
                date = None, summary = None\<rparr>"
  have r: "normalizeRssItem platform0 rss_item = Inr (Some ?it)"
    by (simp add: normalizeRssItem_def rss_item_def parseDate_def)
  have a: "normalizeAtomEntry platform0 atom_entry = Inr (Some ?it')"
    by (simp add: normalizeAtomEntry_def atom_entry_def parseDate_def preferred_def)
  have g: "pickText (js_prop rss_item ''guid'') = Some ''tag:1''"
    and i: "pickText (js_prop atom_entry ''id'') = None"
    by (simp_all add: rss_item_def atom_entry_def)
  from normalized_id_is_first_present [of platform0 rss_item ?it atom_entry ?it'] r a
  show ?thesis unfolding g i by simp
qed

text \<open>
  The claim as the specification states it fails on an item whose guid is the empty
  string: the id is empty, though the link and the title are not.
\<close>

theorem normalized_id_empty_guid:
  "normalizeRssItem platform0 rss_item_empty_guid =
     Inr (Some \<lparr>item_id = '''', title = ''T'', link = Some ''http://a/1'',
                date = None, summary = None\<rparr>)
   \<and> first_non_empty [pickText (js_prop rss_item_empty_guid ''guid''), Some ''http://a/1'', Some ''T'']
       = Some ''http://a/1''"
  by (simp add: normalizeRssItem_def rss_item_empty_guid_def parseDate_def)

section \<open>The items of the cycle and the items of the interface\<close>

text \<open>
  The cycle is modelled on items as they are at run time. Where the items are of the
  declared type, that model is the typed one, for which the properties of the diff engine
  and of the normalizers were proved.
\<close>

lemma insert_by_map:
  assumes "\<And>a b. cmp' (f a) (f b) = cmp a b"
  shows "insert_by cmp' (f x) (map f ys) = map f (insert_by cmp x ys)"
  by (induction ys) (simp_all add: assms)

lemma js_sort_map:
  assumes "\<And>a b. cmp' (f a) (f b) = cmp a b"
  shows "js_sort cmp' (map f xs) = map f (js_sort cmp xs)"
  by (induction xs) (simp_all add: insert_by_map [of cmp' f cmp, OF assms])

lemma findIndex_map: "findIndex Q (map f xs) = findIndex (\<lambda>x. Q (f x)) xs"
  by (induction xs) simp_all

lemma js_sort_Nil: "(js_sort cmp xs = []) = (xs = [])"
proof -
  have "insert_by cmp x ys \<noteq> []" for x ys by (cases ys) simp_all
  then show ?thesis by (cases xs) simp_all
qed

lemma same_id_typed: "same_id (XStr s) (map_option IdStr lastId) = (Some s = lastId)"
  by (cases lastId) auto

lemma truthy_id_typed: "truthy_id (map_option IdStr lastId) = truthy_str lastId"
  by (cases lastId) simp_all

text \<open>
  On items of the declared type, with a watermark id that is a string, the run-time
  \<^verbatim>\<open>diffItems\<close> is the typed one.
\<close>

lemma diffItems_rt_typed:
  "diffItems_rt (map at_run_time items) (map_option IdStr lastId) lastDate =
     \<lparr>newItems_rt = map at_run_time (newItems (diffItems items lastId lastDate)),
      latestItem_rt = map_option at_run_time (latestItem (diffItems items lastId lastDate))\<rparr>"
proof (cases "items = []")
  case True
  then show ?thesis by (simp add: diffItems_rt_def diffItems_def)
next
  case ne: False
  define order where
    "order its = (if list_ex (\<lambda>item. date_rt item \<noteq> None) its
                  then js_sort (\<lambda>a b. (case date_rt a of None \<Rightarrow> 0 | Some d \<Rightarrow> d)
                                       - (case date_rt b of None \<Rightarrow> 0 | Some d \<Rightarrow> d)) its
                  else its)" for its :: "FeedItem_rt list"
  define by_id where
    "by_id sorted' lid =
       (if truthy_id lid
        then (case findIndex (\<lambda>item. same_id (id_rt item) lid) sorted' of
                None \<Rightarrow> []
              | Some index \<Rightarrow> drop (index + 1) sorted')
        else [])" for sorted' :: "FeedItem_rt list" and lid
  define by_date' where
    "by_date' sorted' ld found =
       (case ld of
          None \<Rightarrow> found
        | Some ld \<Rightarrow>
            if found = [] \<and> ld \<noteq> 0
            then filter (\<lambda>item. case date_rt item of
                                  None \<Rightarrow> False
                                | Some d \<Rightarrow> d \<noteq> 0 \<and> d > ld) sorted'
            else found)" for sorted' found :: "FeedItem_rt list" and ld :: "int option"
  define last_resort where
    "last_resort latest lid found =
       (if found = [] \<and> \<not> same_id (id_rt latest) lid then [latest] else found)"
    for latest :: FeedItem_rt and lid found
  have rt: "diffItems_rt its lid ld =
     (if its = [] then \<lparr>newItems_rt = [], latestItem_rt = None\<rparr>
      else if \<not> truthy_id lid \<and> \<not> truthy_num ld
      then \<lparr>newItems_rt = [], latestItem_rt = Some (last (order its))\<rparr>
      else \<lparr>newItems_rt = last_resort (last (order its)) lid
                            (by_date' (order its) ld (by_id (order its) lid)),
            latestItem_rt = Some (last (order its))\<rparr>)" for its lid ld
    unfolding diffItems_rt_def order_def by_id_def by_date'_def last_resort_def Let_def
    by simp
  have so: "order (map at_run_time items) = map at_run_time (sorted_items items)"
  proof -
    have k: "(case date_rt (at_run_time a) of None \<Rightarrow> 0 | Some d \<Rightarrow> d)
             - (case date_rt (at_run_time b) of None \<Rightarrow> 0 | Some d \<Rightarrow> d) = date_cmp a b"
      for a b
      by (simp add: at_run_time_def date_cmp_def date_or_0_def)
    have wd: "list_ex (\<lambda>item. date_rt item \<noteq> None) (map at_run_time items) = withDate items"
      by (simp add: withDate_def list_ex_iff at_run_time_def)
    show ?thesis
      unfolding order_def wd sorted_items_def
      using js_sort_map [of _ at_run_time date_cmp items, OF k] by simp
  qed
  have sne: "sorted_items items \<noteq> []"
    using ne by (simp add: sorted_items_def js_sort_Nil)
  have la: "last (map at_run_time (sorted_items items)) = at_run_time (last (sorted_items items))"
    using sne by (simp add: last_map)
  have f1: "by_id (map at_run_time xs) (map_option IdStr lastId) =
            map at_run_time (after_id xs lastId)" for xs
  proof -
    have fi: "findIndex (\<lambda>item. same_id (id_rt item) (map_option IdStr lastId))
                (map at_run_time xs) =
              findIndex (\<lambda>item. Some (item_id item) = lastId) xs"
      by (simp add: findIndex_map at_run_time_def same_id_typed)
    show ?thesis
      unfolding by_id_def fi truthy_id_typed
      by (cases lastId) (auto simp: after_id_def drop_map split: option.splits)
  qed
  have f2: "by_date' (map at_run_time xs) lastDate (map at_run_time found) =
            map at_run_time (by_date xs lastDate found)" for xs found
  proof -
    have fl: "filter (\<lambda>item. case date_rt item of None \<Rightarrow> False | Some d \<Rightarrow> d \<noteq> 0 \<and> d > ld)
                (map at_run_time ys) = map at_run_time (filter (newer_than ld) ys)" for ld ys
      by (induction ys) (simp_all add: newer_than_def at_run_time_def)
    show ?thesis
      unfolding by_date'_def by (cases lastDate) (simp_all add: by_date_def fl)
  qed
  have f3: "last_resort (at_run_time latest) (map_option IdStr lastId) (map at_run_time found) =
            map at_run_time (catch_up latest lastId found)" for found latest
    by (simp add: last_resort_def catch_up_def at_run_time_def same_id_typed)
  show ?thesis
    unfolding rt so la f1 f2 f3 truthy_id_typed diffItems_def Let_def
    using ne by simp
qed

text \<open>
  Where the typed normalizers return an item, the run-time ones return the same item, and
  where they return nothing, nothing.
\<close>

lemma as_string_Inr: "as_string v = Inr l \<Longrightarrow> v = map_option XStr l"
  by (cases v rule: as_string.cases) auto

lemma normalizeRssItem_rt_typed:
  "normalizeRssItem P x = Inr r \<Longrightarrow> normalizeRssItem_rt P x = map_option at_run_time r"
  by (auto simp: normalizeRssItem_def normalizeRssItem_rt_def at_run_time_def Let_def
           split: if_splits sum.splits option.splits dest!: as_string_Inr)

lemma normalizeAtomEntry_rt_typed:
  "normalizeAtomEntry P x = Inr r \<Longrightarrow> normalizeAtomEntry_rt P x = map_option at_run_time r"
  by (auto simp: normalizeAtomEntry_def normalizeAtomEntry_rt_def at_run_time_def Let_def
           split: if_splits sum.splits option.splits dest!: as_string_Inr)

section \<open>Properties of the cycle\<close>

lemma fetch_store: "fetch P w req = (resp, w1) \<Longrightarrow> store w1 = store w"
  by (auto simp: fetch_def)

lemma fetch_calls: "fetch P w req = (resp, w1) \<Longrightarrow> calls w1 = Suc (calls w)"
  by (auto simp: fetch_def)

lemma sendDiscordMessage_store:
  "sendDiscordMessage P w channel content = (r, w1) \<Longrightarrow> store w1 = store w"
  by (auto simp: sendDiscordMessage_def fetch_def split: response.splits if_splits)

lemma sendDiscordMessage_calls:
  "sendDiscordMessage P w channel content = (r, w1) \<Longrightarrow> calls w1 = Suc (calls w)"
  by (auto simp: sendDiscordMessage_def fetch_def split: response.splits if_splits)

lemma send_all_world:
  "send_all P w channel items = (r, w1) \<Longrightarrow> store w1 = store w \<and> calls w \<le> calls w1"
proof (induction items arbitrary: w)
  case Nil
  then show ?case by simp
next
  case (Cons item items)
  show ?case
  proof (cases "formatDiscordMessage item")
    case (Inl e)
    with Cons.prems show ?thesis by simp
  next
    case (Inr content)
    obtain r0 w0 where s: "sendDiscordMessage P w channel content = (r0, w0)"
      by (cases "sendDiscordMessage P w channel content")
    have w0: "store w0 = store w" "calls w0 = Suc (calls w)"
      using sendDiscordMessage_store [OF s] sendDiscordMessage_calls [OF s] by simp_all
    show ?thesis
    proof (cases r0)
      case None
      with Cons.prems s Inr have "send_all P w0 channel items = (r, w1)" by simp
      from Cons.IH [OF this] w0 show ?thesis by simp
    next
      case (Some e)
      with Cons.prems s w0 Inr show ?thesis by simp
    qed
  qed
qed

lemma send_all_store: "send_all P w channel items = (r, w1) \<Longrightarrow> store w1 = store w"
  by (simp add: send_all_world)

lemma send_all_calls: "send_all P w channel items = (r, w1) \<Longrightarrow> calls w \<le> calls w1"
  by (simp add: send_all_world)

lemma put_subscription_calls: "calls (put_subscription w s) = calls w"
  by (simp add: put_subscription_def)

lemma put_subscription_store:
  "store (put_subscription w s) =
   kv_put (store w) (subscriptionKey (guildId s) (sub_id s)) (SubJ s)"
  by (simp add: put_subscription_def)

text \<open>
  A call of \<^verbatim>\<open>processSubscription\<close> that throws has written nothing, and has changed
  nothing of the subscription but, at most, its feed title.
\<close>

lemma processSubscription_throws:
  assumes "processSubscription P w sub = (Some e, sub', w')"
  shows "store w' = store w \<and> sub' = sub\<lparr>feedTitle := feedTitle sub'\<rparr>"
proof -
  obtain resp w1 where f: "fetch P w (Get (url sub)) = (resp, w1)"
    by (cases "fetch P w (Get (url sub))")
  have s1: "store w1 = store w" using fetch_store [OF f] .
  show ?thesis
  proof (cases resp)
    case (Rejected x)
    with assms f s1 show ?thesis by (simp add: processSubscription_def)
  next
    case (Response status body)
    show ?thesis
    proof (cases "ok status")
      case False
      with assms f s1 Response show ?thesis by (simp add: processSubscription_def)
    next
      case True
      show ?thesis
      proof (cases "parseFeed P body")
        case (Inl x)
        with assms f s1 Response True show ?thesis by (simp add: processSubscription_def)
      next
        case (Inr feed)
        show ?thesis
        proof (cases "format feed = Unknown")
          case u: True
          with assms f s1 Response True Inr show ?thesis by (simp add: processSubscription_def)
        next
          case u: False
          from assms f Response True Inr u s1 show ?thesis
            by (auto simp: processSubscription_def Let_def
                     split: if_splits prod.splits option.splits dest: send_all_store)
        qed
      qed
    qed
  qed
qed

text \<open>
  Any call makes at least one network call, keeps the key of the subscription, and writes
  at most under that key.
\<close>

lemma processSubscription_effect:
  assumes "processSubscription P w sub = (r, sub', w')"
  shows "calls w < calls w'
       \<and> guildId sub' = guildId sub \<and> sub_id sub' = sub_id sub
       \<and> (store w' = store w
          \<or> (\<exists>v. store w' = kv_put (store w) (subscriptionKey (guildId sub) (sub_id sub)) v))"
proof -
  obtain resp w1 where f: "fetch P w (Get (url sub)) = (resp, w1)"
    by (cases "fetch P w (Get (url sub))")
  have s1: "store w1 = store w" "calls w1 = Suc (calls w)"
    using fetch_store [OF f] fetch_calls [OF f] by simp_all
  show ?thesis
  proof (cases resp)
    case (Rejected x)
    with assms f s1 show ?thesis by (auto simp add: processSubscription_def)
  next
    case (Response status body)
    show ?thesis
    proof (cases "ok status")
      case False
      with assms f s1 Response show ?thesis by (auto simp add: processSubscription_def)
    next
      case True
      show ?thesis
      proof (cases "parseFeed P body")
        case (Inl x)
        with assms f s1 Response True show ?thesis by (auto simp add: processSubscription_def)
      next
        case (Inr feed)
        show ?thesis
        proof (cases "format feed = Unknown")
          case u: True
          with assms f s1 Response True Inr show ?thesis by (auto simp add: processSubscription_def)
        next
          case u: False
          have sa: "store (snd (send_all P w1 c items)) = store w"
                   "calls w < calls (snd (send_all P w1 c items))" for c items
            using send_all_world [of P w1 c items "fst (send_all P w1 c items)"
                                     "snd (send_all P w1 c items)"] s1
            by simp_all
          from assms f Response True Inr u s1 show ?thesis
            by (auto simp: processSubscription_def Let_def put_subscription_calls
                       put_subscription_store case_prod_beta sa
                     split: if_splits option.splits)
        qed
      qed
    qed
  qed
qed

lemma check_loop_append:
  "check_loop P w (xs @ ys) = check_loop P (check_loop P w xs) ys"
  by (induction xs arbitrary: w) (auto split: prod.splits option.splits)


lemma on_error_calls: "calls (on_error w sub e) = calls w"
  by (simp add: on_error_def put_subscription_calls)

lemma on_error_store:
  "store (on_error w sub e) =
   kv_put (store w) (subscriptionKey (guildId sub) (sub_id sub))
     (SubJ (sub\<lparr>errorCount := Some ((case errorCount sub of None \<Rightarrow> 0 | Some n \<Rightarrow> n) + 1),
                 lastError := Some (message e)\<rparr>))"
  by (simp add: on_error_def put_subscription_store)

text \<open>
  One turn of the loop, whether the call throws or not: at least one network call, and at
  most one write, under the key of the subscription.
\<close>

lemma iteration_effect:
  assumes "processSubscription P w sub = (r, sub', w1)"
  shows "check_loop P w (sub # rest) =
           check_loop P (case r of None \<Rightarrow> w1 | Some e \<Rightarrow> on_error w1 sub' e) rest"
    and "calls w < calls (case r of None \<Rightarrow> w1 | Some e \<Rightarrow> on_error w1 sub' e)"
    and "store (case r of None \<Rightarrow> w1 | Some e \<Rightarrow> on_error w1 sub' e) = store w
         \<or> (\<exists>v. store (case r of None \<Rightarrow> w1 | Some e \<Rightarrow> on_error w1 sub' e) =
                  kv_put (store w) (subscriptionKey (guildId sub) (sub_id sub)) v)"
proof -
  show "check_loop P w (sub # rest) =
           check_loop P (case r of None \<Rightarrow> w1 | Some e \<Rightarrow> on_error w1 sub' e) rest"
    using assms by (simp split: option.splits)
  from processSubscription_effect [OF assms]
  have c: "calls w < calls w1" and g: "guildId sub' = guildId sub" "sub_id sub' = sub_id sub"
    and st: "store w1 = store w
             \<or> (\<exists>v. store w1 = kv_put (store w) (subscriptionKey (guildId sub) (sub_id sub)) v)"
    by simp_all
  show "calls w < calls (case r of None \<Rightarrow> w1 | Some e \<Rightarrow> on_error w1 sub' e)"
    using c by (simp add: on_error_calls split: option.splits)
  show "store (case r of None \<Rightarrow> w1 | Some e \<Rightarrow> on_error w1 sub' e) = store w
         \<or> (\<exists>v. store (case r of None \<Rightarrow> w1 | Some e \<Rightarrow> on_error w1 sub' e) =
                  kv_put (store w) (subscriptionKey (guildId sub) (sub_id sub)) v)"
  proof (cases r)
    case None
    with st show ?thesis by simp
  next
    case (Some e)
    with assms have "store w1 = store w" using processSubscription_throws by blast
    with Some g show ?thesis by (auto simp: on_error_store)
  qed
qed

text \<open>
  The loop over a list of subscriptions makes at least one network call for each, only adds
  to the log of writes, and leaves alone every key that is not the key of one of them.
\<close>

lemma check_loop_effect:
  "calls w + length subs \<le> calls (check_loop P w subs)
   \<and> (\<exists>more. puts (store (check_loop P w subs)) = puts (store w) @ more)
   \<and> ((\<forall>s\<in>set subs. subscriptionKey (guildId s) (sub_id s) \<noteq> key) \<longrightarrow>
        lookup (store (check_loop P w subs)) key = lookup (store w) key)"
proof (induction subs arbitrary: w)
  case Nil
  show ?case by simp
next
  case (Cons sub rest)
  obtain r sub' w1 where p: "processSubscription P w sub = (r, sub', w1)"
    by (cases "processSubscription P w sub")
  define w2 where "w2 = (case r of None \<Rightarrow> w1 | Some e \<Rightarrow> on_error w1 sub' e)"
  have step: "check_loop P w (sub # rest) = check_loop P w2 rest"
    and c: "calls w < calls w2"
    and st: "store w2 = store w
             \<or> (\<exists>v. store w2 = kv_put (store w) (subscriptionKey (guildId sub) (sub_id sub)) v)"
    unfolding w2_def using iteration_effect [OF p] by blast+
  have pu: "\<exists>m. puts (store w2) = puts (store w) @ m"
    using st by (auto simp: puts_put)
  have lk: "subscriptionKey (guildId sub) (sub_id sub) \<noteq> key \<Longrightarrow>
            lookup (store w2) key = lookup (store w) key"
    using st by (auto simp: lookup_put)
  from Cons.IH [of w2]
  have i1: "calls w2 + length rest \<le> calls (check_loop P w2 rest)"
    and i2: "\<exists>more. puts (store (check_loop P w2 rest)) = puts (store w2) @ more"
    and i3: "(\<forall>s\<in>set rest. subscriptionKey (guildId s) (sub_id s) \<noteq> key) \<longrightarrow>
             lookup (store (check_loop P w2 rest)) key = lookup (store w2) key"
    by simp_all
  have 1: "calls w + length (sub # rest) \<le> calls (check_loop P w (sub # rest))"
    unfolding step using i1 c by simp
  have 2: "\<exists>more. puts (store (check_loop P w (sub # rest))) = puts (store w) @ more"
    unfolding step using i2 pu by auto
  have 3: "(\<forall>s\<in>set (sub # rest). subscriptionKey (guildId s) (sub_id s) \<noteq> key) \<longrightarrow>
           lookup (store (check_loop P w (sub # rest))) key = lookup (store w) key"
    unfolding step using i3 lk by simp
  from 1 2 3 show ?case by blast
qed

text \<open>
  C8. Take a cycle whose subscriptions are read from the namespace, and any one of them,
  after those \<open>before\<close> it and ahead of the \<open>rest\<close>, whose processing throws, whatever the
  error: a failed fetch, a status that is not 2xx, an error of the parser, an unsupported
  format, a failure of the notification sink, or a \<^verbatim>\<open>TypeError\<close> on a link that is not a
  string. The attempt itself wrote nothing. The loop, run up to that subscription, ends in
  the world the \<^verbatim>\<open>catch\<close> block leaves: one record more was written, the record of that
  subscription, with \<^verbatim>\<open>errorCount\<close> one more than before the attempt (\<^verbatim>\<open>undefined\<close>
  counting as 0), \<^verbatim>\<open>lastError\<close> the message of the error, and \<^verbatim>\<open>lastItemId\<close> and
  \<^verbatim>\<open>lastItemDate\<close> as they were before the attempt. The cycle does not stop there: it
  returns, its log of writes has that record right after the writes made before the
  attempt, at least one network call was made for each of the remaining subscriptions, and
  unless one of these has the same key, the record is what the namespace holds under the
  key at the end.
\<close>

theorem cycle_records_error_and_continues:
  assumes "get_all (store w) (listAllKeys (store w) ''sub:g:'') = Inr loaded"
      and "non_null loaded = before @ sub # rest"
      and "processSubscription P (check_loop P w before) sub = (Some e, sub', w')"
  shows "let w0 = check_loop P w before;
             key = subscriptionKey (guildId sub) (sub_id sub);
             rec = sub\<lparr>feedTitle := feedTitle sub',
                       errorCount := Some ((case errorCount sub of None \<Rightarrow> 0 | Some n \<Rightarrow> n) + 1),
                       lastError := Some (message e)\<rparr>;
             final = check_loop P (on_error w' sub' e) rest
         in errorCount rec = Some ((case errorCount sub of None \<Rightarrow> 0 | Some n \<Rightarrow> n) + 1)
          \<and> lastError rec = Some (message e)
          \<and> lastItemId rec = lastItemId sub
          \<and> lastItemDate rec = lastItemDate sub
          \<and> store w' = store w0
          \<and> check_loop P w (before @ [sub]) = on_error w' sub' e
          \<and> store (on_error w' sub' e) = kv_put (store w0) key (SubJ rec)
          \<and> runFeedChecks P w = Inr final
          \<and> (\<exists>more. puts (store final) = puts (store w0) @ (key, SubJ rec) # more)
          \<and> calls w' + length rest \<le> calls final
          \<and> ((\<forall>s\<in>set rest. subscriptionKey (guildId s) (sub_id s) \<noteq> key) \<longrightarrow>
               lookup (store final) key = Some (SubJ rec))"
proof -
  define w0 where "w0 = check_loop P w before"
  define key where "key = subscriptionKey (guildId sub) (sub_id sub)"
  define rec where
    "rec = sub\<lparr>feedTitle := feedTitle sub',
               errorCount := Some ((case errorCount sub of None \<Rightarrow> 0 | Some n \<Rightarrow> n) + 1),
               lastError := Some (message e)\<rparr>"
  define final where "final = check_loop P (on_error w' sub' e) rest"
  have p: "processSubscription P w0 sub = (Some e, sub', w')"
    using assms(3) by (simp add: w0_def)
  from processSubscription_throws [OF p]
  have s: "store w' = store w0" and t: "sub' = sub\<lparr>feedTitle := feedTitle sub'\<rparr>" by simp_all
  have g: "guildId sub' = guildId sub" "sub_id sub' = sub_id sub" "errorCount sub' = errorCount sub"
    by (subst t, simp)+
  have r: "sub'\<lparr>errorCount := Some ((case errorCount sub' of None \<Rightarrow> 0 | Some n \<Rightarrow> n) + 1),
                lastError := Some (message e)\<rparr> = rec"
    unfolding rec_def by (subst t) (simp add: g)
  have one: "check_loop P w0 [sub] = on_error w' sub' e"
    using p by simp
  have upto: "check_loop P w (before @ [sub]) = on_error w' sub' e"
    using one by (simp add: check_loop_append w0_def)
  have all: "check_loop P w (before @ sub # rest) = final"
    using check_loop_append [of P w "before @ [sub]" rest] upto by (simp add: final_def)
  have st: "store (on_error w' sub' e) = kv_put (store w0) key (SubJ rec)"
    using r by (simp add: on_error_store g s key_def)
  have keys: "listAllKeys (store w) ''sub:g:'' \<noteq> []"
  proof
    assume "listAllKeys (store w) ''sub:g:'' = []"
    with assms(1) have "loaded = []" by simp
    with assms(2) show False by simp
  qed
  have run: "runFeedChecks P w = Inr final"
    using keys assms(1,2) all by (simp add: runFeedChecks_def Let_def)
  from check_loop_effect [of "on_error w' sub' e" rest P key]
  have e1: "calls (on_error w' sub' e) + length rest \<le> calls final"
    and e2: "\<exists>more. puts (store final) = puts (store (on_error w' sub' e)) @ more"
    and e3: "(\<forall>s\<in>set rest. subscriptionKey (guildId s) (sub_id s) \<noteq> key) \<longrightarrow>
             lookup (store final) key = lookup (store (on_error w' sub' e)) key"
    unfolding final_def by simp_all
  have pu: "\<exists>more. puts (store final) = puts (store w0) @ (key, SubJ rec) # more"
    using e2 by (simp add: st puts_put)
  have ca: "calls w' + length rest \<le> calls final"
    using e1 by (simp add: on_error_calls)
  have lk: "(\<forall>s\<in>set rest. subscriptionKey (guildId s) (sub_id s) \<noteq> key) \<longrightarrow>
            lookup (store final) key = Some (SubJ rec)"
    using e3 by (simp add: st lookup_put)
  have f: "errorCount rec = Some ((case errorCount sub of None \<Rightarrow> 0 | Some n \<Rightarrow> n) + 1)"
          "lastError rec = Some (message e)"
          "lastItemId rec = lastItemId sub" "lastItemDate rec = lastItemDate sub"
    by (simp_all add: rec_def)
  from f s upto st run pu ca lk show ?thesis
    unfolding Let_def w0_def [symmetric] key_def [symmetric] rec_def [symmetric]
      final_def [symmetric]
    by blast
qed


text \<open>
  The kinds of failure the claim lists do make \<^verbatim>\<open>processSubscription\<close> throw, and so does a
  link that is not a string, in the loop that sends the new items.
\<close>

lemma fetch_failure_throws:
  "net P (calls w) (Get (url sub)) = Rejected e \<Longrightarrow>
   processSubscription P w sub = (Some e, sub, w\<lparr>calls := Suc (calls w)\<rparr>)"
  by (simp add: processSubscription_def fetch_def)

lemma bad_status_throws:
  "net P (calls w) (Get (url sub)) = Response status body \<Longrightarrow> \<not> ok status \<Longrightarrow>
   processSubscription P w sub =
     (Some (Error (''Feed fetch failed ('' @ dec status @ '')'')), sub, w\<lparr>calls := Suc (calls w)\<rparr>)"
  by (simp add: processSubscription_def fetch_def)

lemma parse_error_throws:
  "net P (calls w) (Get (url sub)) = Response status body \<Longrightarrow> ok status \<Longrightarrow>
   parseFeed P body = Inl e \<Longrightarrow>
   processSubscription P w sub = (Some e, sub, w\<lparr>calls := Suc (calls w)\<rparr>)"
  by (simp add: processSubscription_def fetch_def)

lemma unknown_format_throws:
  "net P (calls w) (Get (url sub)) = Response status body \<Longrightarrow> ok status \<Longrightarrow>
   parseFeed P body = Inr feed \<Longrightarrow> format feed = Unknown \<Longrightarrow>
   processSubscription P w sub =
     (Some (Error ''Unsupported feed format''), sub, w\<lparr>calls := Suc (calls w)\<rparr>)"
  by (simp add: processSubscription_def fetch_def)

lemma sink_failure_throws:
  "formatDiscordMessage item = Inr content \<Longrightarrow>
   net P (calls w) (Post channel content) = Response status text \<Longrightarrow> \<not> ok status \<Longrightarrow>
   send_all P w channel (item # rest) =
     (Some (Error (''Discord post failed ('' @ dec status @ ''): '' @ text)),
      w\<lparr>calls := Suc (calls w)\<rparr>)"
  by (simp add: sendDiscordMessage_def fetch_def)

lemma link_type_error_throws:
  "link_rt item = Some l \<Longrightarrow> truthy l \<Longrightarrow> \<forall>s. l \<noteq> XStr s \<Longrightarrow>
   send_all P w channel (item # rest) =
     (Some (Error ''item.link.trim is not a function''), w)"
  by (cases l) (simp_all add: formatDiscordMessage_def)

theorem cycle_records_error_and_continues_witness:
  "get_all (store world1) (listAllKeys (store world1) ''sub:g:'') = Inr [Some sub1, Some sub2]
   \<and> non_null [Some sub1, Some sub2] = [] @ sub1 # [sub2]
   \<and> processSubscription platform2 (check_loop platform2 world1 []) sub1 =
       (Some (Error ''item.link.trim is not a function''),
        sub1\<lparr>feedTitle := Some ''Numbers''\<rparr>, world1\<lparr>calls := 1\<rparr>)
   \<and> subscriptionKey (guildId sub2) (sub_id sub2) \<noteq> ''sub:g:g1:s1''
   \<and> runFeedChecks platform2 world1 =
       Inr (check_loop platform2
              (on_error (world1\<lparr>calls := 1\<rparr>) (sub1\<lparr>feedTitle := Some ''Numbers''\<rparr>)
                 (Error ''item.link.trim is not a function'')) [sub2])
   \<and> lookup (store (check_loop platform2
              (on_error (world1\<lparr>calls := 1\<rparr>) (sub1\<lparr>feedTitle := Some ''Numbers''\<rparr>)
                 (Error ''item.link.trim is not a function'')) [sub2])) ''sub:g:g1:s1'' =
       Some (SubJ (sub1\<lparr>feedTitle := Some ''Numbers'', errorCount := Some 1,
                        lastError := Some ''item.link.trim is not a function''\<rparr>))
   \<and> 2 \<le> calls (check_loop platform2
              (on_error (world1\<lparr>calls := 1\<rparr>) (sub1\<lparr>feedTitle := Some ''Numbers''\<rparr>)
                 (Error ''item.link.trim is not a function'')) [sub2])"
proof -
  have h1: "get_all (store world1) (listAllKeys (store world1) ''sub:g:'') =
            Inr [Some sub1, Some sub2]"
    by code_simp
  have h2: "non_null [Some sub1, Some sub2] = [] @ sub1 # [sub2]" by simp
  have h3: "processSubscription platform2 (check_loop platform2 world1 []) sub1 =
       (Some (Error ''item.link.trim is not a function''),
        sub1\<lparr>feedTitle := Some ''Numbers''\<rparr>, world1\<lparr>calls := 1\<rparr>)"
    by code_simp
  have k: "subscriptionKey (guildId sub1) (sub_id sub1) = ''sub:g:g1:s1''"
    by (simp add: subscriptionKey_def sub1_def)
  have k2: "subscriptionKey (guildId sub2) (sub_id sub2) \<noteq> ''sub:g:g1:s1''"
    by (simp add: subscriptionKey_def sub2_def)
  have c: "(case errorCount sub1 of None \<Rightarrow> 0 | Some n \<Rightarrow> n) + 1 = 1"
    by (simp add: sub1_def)
  have c1: "calls (world1\<lparr>calls := 1\<rparr>) = 1" by simp
  from cycle_records_error_and_continues [OF h1 h2 h3] h1 h2 h3 k2
  show ?thesis unfolding Let_def k c c1 by simp
qed

text \<open>
  The same cycle, computed: the first subscription fails on a link that is a number and is
  written with its error, and the second, checked for the first time, is written with its
  watermark.
\<close>

lemma cycle_example:
  "map_sum id (\<lambda>w. (puts (store w), calls w)) (runFeedChecks platform2 world1) =
     Inr ([(''sub:g:g1:s1'',
            SubJ (sub1\<lparr>feedTitle := Some ''Numbers'', errorCount := Some 1,
                       lastError := Some ''item.link.trim is not a function''\<rparr>)),
           (''sub:g:g1:s2'',
            SubJ (sub2\<lparr>feedTitle := Some ''Numbers'', lastItemId := Some (IdStr ''b'')\<rparr>))],
          2)"
  by code_simp

end
